theory Spec2Isabelle
  imports Complex_Main "HOL-Library.Word" "HOL-Library.Sublist"
begin

section \<open>Python values, exceptions and the file system\<close>

text \<open>
  The notebook \<^verbatim>\<open>dl_final.ipynb\<close> is a script: it parses annotation files,
  crops and rescales images, and runs a fixed-length training loop. Every exception the
  code can raise is a value of \<open>exn\<close>; a computation that may raise returns
  \<open>exn + 'a\<close> with \<open>Inl\<close> for the exception. \<open>bindE\<close> sequences two such
  computations and stops at the first exception, as Python does.
\<close>

datatype exn =
    ParseError
  | AttributeError
  | TypeError
  | ValueError
  | KeyError
  | FileNotFoundError
  | NotADirectoryError
  | IsADirectoryError
  | UnidentifiedImageError
  | IndexError
  | ZeroDivisionError
  | OSError
  | OverflowError
  | DecompressionBombError

definition bindE :: "exn + 'a \<Rightarrow> ('a \<Rightarrow> exn + 'b) \<Rightarrow> exn + 'b" where
  "bindE m f = (case m of Inl e \<Rightarrow> Inl e | Inr v \<Rightarrow> f v)"

text \<open>The values an annotation dictionary holds: \<^verbatim>\<open>None\<close>, a string or an integer.\<close>

datatype pyval = PyNone | PyStr string | PyInt int

subsection \<open>XML elements and \<^verbatim>\<open>Element.find\<close>\<close>

text \<open>
  An element has a tag, an optional text (\<^verbatim>\<open>None\<close> for an empty element) and its
  children in document order. \<^verbatim>\<open>find(path)\<close> with a path of tags separated by
  \<^verbatim>\<open>/\<close> walks the children level by level and returns the first match in document
  order, or \<^verbatim>\<open>None\<close>.
\<close>

datatype element = Element (el_tag: string) (el_text: "string option") (el_children: "element list")

fun split_path :: "string \<Rightarrow> string \<Rightarrow> string list" where
  "split_path cur [] = [rev cur]"
| "split_path cur (c # cs) =
     (if c = CHR ''/'' then rev cur # split_path [] cs else split_path (c # cur) cs)"

definition child_elems :: "string \<Rightarrow> element \<Rightarrow> element list" where
  "child_elems t e = filter (\<lambda>c. el_tag c = t) (el_children e)"

fun findall :: "string list \<Rightarrow> element list \<Rightarrow> element list" where
  "findall [] es = es"
| "findall (t # ts) es = findall ts (concat (map (child_elems t) es))"

definition et_find :: "element \<Rightarrow> string \<Rightarrow> element option" where
  "et_find doc path = (case findall (split_path [] path) [doc] of [] \<Rightarrow> None | e # _ \<Rightarrow> Some e)"

text \<open>\<^verbatim>\<open>root.find(path).text\<close>: an \<^verbatim>\<open>AttributeError\<close> when the element is missing.\<close>

definition find_text :: "element \<Rightarrow> string \<Rightarrow> exn + pyval" where
  "find_text doc path =
     (case et_find doc path of
        None \<Rightarrow> Inl AttributeError
      | Some e \<Rightarrow> Inr (case el_text e of None \<Rightarrow> PyNone | Some s \<Rightarrow> PyStr s))"

subsection \<open>The builtin \<^verbatim>\<open>int\<close> on strings\<close>

text \<open>
  \<^verbatim>\<open>int(s)\<close> in base ten: surrounding white space is dropped, one sign may lead, and
  the digits may be grouped by single underscores. A character is a code point below 256.
  The white space \<^verbatim>\<open>int\<close> drops is the ASCII white space (codes 9 to 13 and 32)
  and the two spaces above 127 that it first rewrites to a blank (codes 133 and 160); the
  separators 28 to 31 are not dropped. The only decimal digits below 256 are the ASCII
  digits. A string of more than 4300 digits is refused, the interpreter's default limit.
\<close>

definition is_space :: "char \<Rightarrow> bool" where
  "is_space c = (let n = of_char c :: nat in (9 \<le> n \<and> n \<le> 13) \<or> n = 32 \<or> n = 133 \<or> n = 160)"

definition is_digit :: "char \<Rightarrow> bool" where
  "is_digit c = (let n = of_char c :: nat in 48 \<le> n \<and> n \<le> 57)"

definition digit_val :: "char \<Rightarrow> nat" where
  "digit_val c = of_char c - 48"

definition strip :: "string \<Rightarrow> string" where
  "strip s = rev (dropWhile is_space (rev (dropWhile is_space s)))"

fun parse_digits :: "nat \<Rightarrow> string \<Rightarrow> nat option" where
  "parse_digits acc [] = Some acc"
| "parse_digits acc [c] = (if is_digit c then Some (10 * acc + digit_val c) else None)"
| "parse_digits acc (c # d # ds) =
     (if c = CHR ''_'' then
        (if is_digit d then parse_digits (10 * acc + digit_val d) ds else None)
      else if is_digit c then parse_digits (10 * acc + digit_val c) (d # ds)
      else None)"

definition parse_unsigned :: "string \<Rightarrow> nat option" where
  "parse_unsigned s =
     (case s of [] \<Rightarrow> None
      | c # cs \<Rightarrow> if is_digit c then parse_digits (digit_val c) cs else None)"

definition py_int :: "string \<Rightarrow> int option" where
  "py_int s =
     (if 4300 < length (filter is_digit (strip s)) then None
      else
        (case strip s of
           [] \<Rightarrow> None
         | c # cs \<Rightarrow>
             if c = CHR ''-'' then map_option (\<lambda>n. - int n) (parse_unsigned cs)
             else if c = CHR ''+'' then map_option int (parse_unsigned cs)
             else map_option int (parse_unsigned (c # cs))))"

text \<open>\<^verbatim>\<open>int(x)\<close> on a dictionary value: \<^verbatim>\<open>int(None)\<close> is a \<^verbatim>\<open>TypeError\<close>,
  a string that is no integer a \<^verbatim>\<open>ValueError\<close>.\<close>

definition int_of :: "pyval \<Rightarrow> exn + pyval" where
  "int_of v =
     (case v of
        PyNone \<Rightarrow> Inl TypeError
      | PyInt n \<Rightarrow> Inr (PyInt n)
      | PyStr s \<Rightarrow> (case py_int s of None \<Rightarrow> Inl ValueError | Some n \<Rightarrow> Inr (PyInt n)))"

subsection \<open>Images\<close>

text \<open>
  An opened image has a mode, a size and one 8-bit sample per band and pixel; the modes
  are the 8-bit modes of the imaging library with their band counts (the modes a JPEG
  file decodes to are among them; images of one-bit, 16-bit, 32-bit or floating samples
  are not covered). \<open>im_data im x y b\<close> is the sample of band \<open>b\<close> at column
  \<open>x\<close> and row \<open>y\<close>. Opening reads the header only: \<open>im_truncated\<close> marks an
  image whose file is cut short, so that loading its samples fails.
\<close>

datatype mode = Mode_L | Mode_P | Mode_LA | Mode_RGB | Mode_RGBA | Mode_CMYK

fun bands :: "mode \<Rightarrow> nat" where
  "bands Mode_L = 1"
| "bands Mode_P = 1"
| "bands Mode_LA = 2"
| "bands Mode_RGB = 3"
| "bands Mode_RGBA = 4"
| "bands Mode_CMYK = 4"

record image =
  im_mode :: mode
  im_width :: nat
  im_height :: nat
  im_data :: "nat \<Rightarrow> nat \<Rightarrow> nat \<Rightarrow> 8 word"
  im_truncated :: bool

subsection \<open>The file system\<close>

text \<open>
  A path names a directory (with the names \<^verbatim>\<open>os.listdir\<close> returns, in that order) or
  a file; a file holds a well-formed XML document, a decodable image, or anything else.
  Opening a path that names nothing fails with \<^verbatim>\<open>NotADirectoryError\<close> when the path
  runs through a regular file (one of its proper prefixes that end before a slash names
  a file), and with \<^verbatim>\<open>FileNotFoundError\<close> otherwise. Permissions are not modelled.
\<close>

datatype content = Xml element | Picture image | Garbage

datatype node = Dir "string list" | File content

type_synonym filesystem = "string \<Rightarrow> node option"

definition ancestors :: "string \<Rightarrow> string list" where
  "ancestors p = map (\<lambda>i. take i p) (filter (\<lambda>i. p ! i = CHR ''/'') [1..<length p])"

definition is_file :: "filesystem \<Rightarrow> string \<Rightarrow> bool" where
  "is_file fs p = (case fs p of Some (File _) \<Rightarrow> True | _ \<Rightarrow> False)"

definition absent :: "filesystem \<Rightarrow> string \<Rightarrow> exn" where
  "absent fs p = (if list_ex (is_file fs) (ancestors p) then NotADirectoryError else FileNotFoundError)"

definition listdir :: "filesystem \<Rightarrow> string \<Rightarrow> exn + string list" where
  "listdir fs p =
     (case fs p of
        None \<Rightarrow> Inl (absent fs p)
      | Some (File _) \<Rightarrow> Inl NotADirectoryError
      | Some (Dir names) \<Rightarrow> Inr names)"

text \<open>\<^verbatim>\<open>os.path.join(a, b)\<close> for two components.\<close>

definition path_join :: "string \<Rightarrow> string \<Rightarrow> string" where
  "path_join a b =
     (if b \<noteq> [] \<and> hd b = CHR ''/'' then b
      else if a = [] \<or> last a = CHR ''/'' then a @ b
      else a @ ''/'' @ b)"

text \<open>\<^verbatim>\<open>ET.parse(file).getroot()\<close>.\<close>

definition ET_parse :: "filesystem \<Rightarrow> string \<Rightarrow> exn + element" where
  "ET_parse fs p =
     (case fs p of
        None \<Rightarrow> Inl (absent fs p)
      | Some (Dir _) \<Rightarrow> Inl IsADirectoryError
      | Some (File (Xml doc)) \<Rightarrow> Inr doc
      | Some (File _) \<Rightarrow> Inl ParseError)"

text \<open>
  The imaging library refuses an image of more than twice \<^verbatim>\<open>MAX_IMAGE_PIXELS\<close>
  pixels, 89478485 by default, with a \<^verbatim>\<open>DecompressionBombError\<close>; a side of zero
  counts as one.
\<close>

definition bomb :: "int \<Rightarrow> int \<Rightarrow> bool" where
  "bomb w h \<longleftrightarrow> 2 * 89478485 < max 1 w * max 1 h"

text \<open>\<^verbatim>\<open>Image.open(path)\<close>.\<close>

definition Image_open :: "filesystem \<Rightarrow> string \<Rightarrow> exn + image" where
  "Image_open fs p =
     (case fs p of
        None \<Rightarrow> Inl (absent fs p)
      | Some (Dir _) \<Rightarrow> Inl IsADirectoryError
      | Some (File (Picture im)) \<Rightarrow>
          if bomb (int (im_width im)) (int (im_height im)) then Inl DecompressionBombError else Inr im
      | Some (File _) \<Rightarrow> Inl UnidentifiedImageError)"

section \<open>Parsing one annotation file\<close>

text \<open>
  \<^verbatim>\<open>parse_annotation\<close> builds a dictionary literal; its entries are evaluated in
  the order written, so the first failing entry decides the exception. The dictionary is
  an association list in insertion order.
\<close>

type_synonym annotation = "(string \<times> pyval) list"

definition parse_annotation :: "filesystem \<Rightarrow> string \<Rightarrow> exn + annotation" where
  "parse_annotation fs annotation_file =
     bindE (ET_parse fs annotation_file) (\<lambda>doc.
     bindE (find_text doc ''filename'') (\<lambda>filename.
     bindE (bindE (find_text doc ''size/width'') int_of) (\<lambda>width.
     bindE (bindE (find_text doc ''size/height'') int_of) (\<lambda>height.
     bindE (find_text doc ''object/name'') (\<lambda>cls.
     bindE (bindE (find_text doc ''object/bndbox/xmin'') int_of) (\<lambda>xmin.
     bindE (bindE (find_text doc ''object/bndbox/ymin'') int_of) (\<lambda>ymin.
     bindE (bindE (find_text doc ''object/bndbox/xmax'') int_of) (\<lambda>xmax.
     bindE (bindE (find_text doc ''object/bndbox/ymax'') int_of) (\<lambda>ymax.
       Inr [(''filename'', filename), (''width'', width), (''height'', height),
            (''class'', cls), (''xmin'', xmin), (''ymin'', ymin),
            (''xmax'', xmax), (''ymax'', ymax)])))))))))"

text \<open>The loop of the first cell that collects every annotation for the data frame.\<close>

fun collect_files :: "filesystem \<Rightarrow> string \<Rightarrow> string list \<Rightarrow> annotation list \<Rightarrow> exn + annotation list" where
  "collect_files fs folder_path [] annotations = Inr annotations"
| "collect_files fs folder_path (annotation_file # rest) annotations =
     bindE (parse_annotation fs (path_join folder_path annotation_file)) (\<lambda>annotation_data.
       collect_files fs folder_path rest (annotations @ [annotation_data]))"

fun collect_folders :: "filesystem \<Rightarrow> string \<Rightarrow> string list \<Rightarrow> annotation list \<Rightarrow> exn + annotation list" where
  "collect_folders fs annotations_path [] annotations = Inr annotations"
| "collect_folders fs annotations_path (annotation_folder # rest) annotations =
     bindE (listdir fs (path_join annotations_path annotation_folder)) (\<lambda>files.
     bindE (collect_files fs (path_join annotations_path annotation_folder) files annotations)
       (collect_folders fs annotations_path rest))"

definition load_annotations :: "filesystem \<Rightarrow> string \<Rightarrow> exn + annotation list" where
  "load_annotations fs annotations_path =
     bindE (listdir fs annotations_path) (\<lambda>folders.
       collect_folders fs annotations_path folders [])"

section \<open>Cropping, resizing and normalising\<close>

subsection \<open>The imaging library\<close>

text \<open>
  \<^verbatim>\<open>Image.crop(box)\<close> with \<open>box = (left, upper, right, lower)\<close>: a
  \<^verbatim>\<open>ValueError\<close> when right is less than left or lower less than upper; then the
  samples are loaded, an \<^verbatim>\<open>OSError\<close> for a file cut short; then the size of the
  crop is checked against the pixel limit; then the four coordinates are handed to
  compiled code as C integers, an \<^verbatim>\<open>OverflowError\<close> when one does not fit 32 bits.
  The result is an image of the same mode and of size \<open>(right - left, lower - upper)\<close>
  whose pixel \<open>(x, y)\<close> is the source's pixel \<open>(left + x, upper + y)\<close>, and zero
  where that lies outside the source.
\<close>

type_synonym box = "int \<times> int \<times> int \<times> int"

definition c_int :: "int \<Rightarrow> bool" where
  "c_int k \<longleftrightarrow> - (2 ^ 31) \<le> k \<and> k < 2 ^ 31"

definition crop :: "image \<Rightarrow> box \<Rightarrow> exn + image" where
  "crop im bx =
     (case bx of (left, upper, right, lower) \<Rightarrow>
        if right < left then Inl ValueError
        else if lower < upper then Inl ValueError
        else if im_truncated im then Inl OSError
        else if bomb (right - left) (lower - upper) then Inl DecompressionBombError
        else if \<not> (c_int left \<and> c_int upper \<and> c_int right \<and> c_int lower) then Inl OverflowError
        else Inr \<lparr> im_mode = im_mode im,
                   im_width = nat (right - left),
                   im_height = nat (lower - upper),
                   im_data = (\<lambda>x y b.
                      let sx = left + int x; sy = upper + int y
                      in if 0 \<le> sx \<and> sx < int (im_width im) \<and> 0 \<le> sy \<and> sy < int (im_height im)
                         then im_data im (nat sx) (nat sy) b else 0),
                   im_truncated = False \<rparr>)"

text \<open>
  \<^verbatim>\<open>Image.resize(size)\<close> loads the samples, returns a copy when the size does not
  change, and otherwise a new image of the same mode and of the requested size. Which
  samples the new image holds, and whether the compiled filter raises on the source
  instead (an empty source, exhausted memory), is the resampling filter's business: the
  filter is a parameter \<open>rs\<close>, any function from the source image and the target size
  to an exception or to the 8-bit samples by position.
\<close>

type_synonym resampler = "image \<Rightarrow> nat \<times> nat \<Rightarrow> exn + (nat \<Rightarrow> nat \<Rightarrow> nat \<Rightarrow> 8 word)"

definition resize :: "resampler \<Rightarrow> image \<Rightarrow> nat \<times> nat \<Rightarrow> exn + image" where
  "resize rs im sz =
     (if im_truncated im then Inl OSError
      else if (im_width im, im_height im) = sz then Inr im
      else
        (case rs im sz of
           Inl e \<Rightarrow> Inl e
         | Inr d \<Rightarrow> Inr \<lparr> im_mode = im_mode im, im_width = fst sz, im_height = snd sz,
                           im_data = d, im_truncated = False \<rparr>))"

subsection \<open>Arrays\<close>

text \<open>
  An array is its shape and its elements by index; an index outside the shape has no
  element. \<^verbatim>\<open>np.array(image)\<close> has shape (height, width) for a one-band image and
  (height, width, bands) otherwise.
\<close>

record 'a ndarray =
  shape :: "nat list"
  item :: "nat list \<Rightarrow> 'a option"

definition in_bounds :: "nat list \<Rightarrow> nat list \<Rightarrow> bool" where
  "in_bounds shp idx = list_all2 (\<lambda>i n. i < n) idx shp"

definition mk_array :: "nat list \<Rightarrow> (nat list \<Rightarrow> 'a) \<Rightarrow> 'a ndarray" where
  "mk_array shp f = \<lparr> shape = shp, item = (\<lambda>idx. if in_bounds shp idx then Some (f idx) else None) \<rparr>"

definition np_array :: "image \<Rightarrow> 8 word ndarray" where
  "np_array im =
     (if bands (im_mode im) = 1
      then mk_array [im_height im, im_width im] (\<lambda>idx. im_data im (idx ! 1) (idx ! 0) 0)
      else mk_array [im_height im, im_width im, bands (im_mode im)]
             (\<lambda>idx. im_data im (idx ! 1) (idx ! 0) (idx ! 2)))"

text \<open>\<^verbatim>\<open>image / 255.0\<close>, element by element. The quotient is taken in the reals; the
  floating-point quotient of a byte by 255.0 is its rounding, which lies in the same
  interval from 0 to 1.\<close>

definition normalize_image :: "8 word ndarray \<Rightarrow> real ndarray" where
  "normalize_image a =
     \<lparr> shape = shape a, item = (\<lambda>idx. map_option (\<lambda>v. real (unat v) / 255) (item a idx)) \<rparr>"

text \<open>
  \<^verbatim>\<open>np.array(list_of_arrays)\<close>: the arrays stacked along a new first axis; a
  \<^verbatim>\<open>ValueError\<close> when their shapes differ; the empty list gives shape (0,).
\<close>

definition np_stack :: "'a ndarray list \<Rightarrow> exn + 'a ndarray" where
  "np_stack xs =
     (case xs of
        [] \<Rightarrow> Inr \<lparr> shape = [0], item = (\<lambda>idx. None) \<rparr>
      | x # _ \<Rightarrow>
          if list_all (\<lambda>y. shape y = shape x) xs
          then Inr \<lparr> shape = length xs # shape x,
                      item = (\<lambda>idx. case idx of [] \<Rightarrow> None
                                | i # rest \<Rightarrow> if i < length xs then item (xs ! i) rest else None) \<rparr>
          else Inl ValueError)"

subsection \<open>Dictionary access\<close>

definition getitem :: "annotation \<Rightarrow> string \<Rightarrow> exn + pyval" where
  "getitem d k = (case map_of d k of None \<Rightarrow> Inl KeyError | Some v \<Rightarrow> Inr v)"

text \<open>\<^verbatim>\<open>v + '.jpg'\<close> and integer arithmetic on dictionary values: a
  \<^verbatim>\<open>TypeError\<close> unless the value is a string, respectively an integer.\<close>

definition str_add :: "pyval \<Rightarrow> string \<Rightarrow> exn + string" where
  "str_add v t = (case v of PyStr s \<Rightarrow> Inr (s @ t) | _ \<Rightarrow> Inl TypeError)"

definition as_int :: "pyval \<Rightarrow> exn + int" where
  "as_int v = (case v of PyInt n \<Rightarrow> Inr n | _ \<Rightarrow> Inl TypeError)"

subsection \<open>\<^verbatim>\<open>load_and_preprocess_images\<close>\<close>

text \<open>
  The crop box of a bounding box: \<open>w = np.min((xmax - xmin, ymax - ymin))\<close> and
  \<open>bbox = (xmin, ymin, xmin + w, ymin + w)\<close>. The differences are differences of
  Python integers, exact. When both fit 64 bits \<^verbatim>\<open>np.min\<close> returns a 64-bit integer,
  and adding it to a Python integer that fits 64 bits is a 64-bit addition, which wraps.
  When a difference or a corner does not fit 64 bits, what the array library computes
  (an unsigned, a floating or an object value, or an \<^verbatim>\<open>OverflowError\<close>) depends on
  its version: that case is a parameter \<open>wb\<close>, any function from the four integers to
  an exception or to the box as \<^verbatim>\<open>crop\<close> reads it.
\<close>

type_synonym wide_box = "int \<Rightarrow> int \<Rightarrow> int \<Rightarrow> int \<Rightarrow> exn + box"

definition int64 :: "int \<Rightarrow> bool" where
  "int64 k \<longleftrightarrow> - (2 ^ 63) \<le> k \<and> k < 2 ^ 63"

definition wrap64 :: "int \<Rightarrow> int" where
  "wrap64 k = (k + 2 ^ 63) mod 2 ^ 64 - 2 ^ 63"

definition bbox :: "wide_box \<Rightarrow> int \<Rightarrow> int \<Rightarrow> int \<Rightarrow> int \<Rightarrow> exn + box" where
  "bbox wb xmin ymin xmax ymax =
     (if int64 (xmax - xmin) \<and> int64 (ymax - ymin) \<and> int64 xmin \<and> int64 ymin
      then let w = min (xmax - xmin) (ymax - ymin)
           in Inr (xmin, ymin, wrap64 (xmin + w), wrap64 (ymin + w))
      else wb xmin ymin xmax ymax)"

text \<open>The body of \<^verbatim>\<open>if image is not None\<close> up to the array that is appended.\<close>

definition preprocess_image :: "resampler \<Rightarrow> wide_box \<Rightarrow> image \<Rightarrow> annotation \<Rightarrow> exn + real ndarray" where
  "preprocess_image rs wb img annotation_data =
     bindE (bindE (getitem annotation_data ''xmin'') as_int) (\<lambda>xmin.
     bindE (bindE (getitem annotation_data ''ymin'') as_int) (\<lambda>ymin.
     bindE (bindE (getitem annotation_data ''xmax'') as_int) (\<lambda>xmax.
     bindE (bindE (getitem annotation_data ''ymax'') as_int) (\<lambda>ymax.
     bindE (bbox wb xmin ymin xmax ymax) (\<lambda>bx.
     bindE (crop img bx) (\<lambda>cropped_image.
     bindE (resize rs cropped_image (128, 128)) (\<lambda>resized_image.
       let normalized_image = normalize_image (np_array resized_image)
       in Inr normalized_image)))))))"

text \<open>
  One pass of the inner loop, for the annotation file at \<open>annotation_path\<close>. The state
  is the pair of lists \<^verbatim>\<open>processed_images\<close> and \<^verbatim>\<open>annotations\<close>. Only
  \<^verbatim>\<open>FileNotFoundError\<close> from \<^verbatim>\<open>Image.open\<close> is caught. \<^verbatim>\<open>Image.open\<close>
  returns an image or raises, so the test \<^verbatim>\<open>image is not None\<close> always holds and is
  no branch here.
\<close>

type_synonym lists = "real ndarray list \<times> annotation list"

definition process_file :: "resampler \<Rightarrow> wide_box \<Rightarrow> filesystem \<Rightarrow> string \<Rightarrow> string \<Rightarrow> lists \<Rightarrow> exn + lists" where
  "process_file rs wb fs images_path annotation_path acc =
     bindE (parse_annotation fs annotation_path) (\<lambda>annotation_data.
     bindE (getitem annotation_data ''filename'') (\<lambda>filename.
     bindE (str_add filename ''.jpg'') (\<lambda>image_file.
       let image_path = path_join images_path image_file in
       if sublist ''%s'' image_path then Inr acc
       else
         (case Image_open fs image_path of
            Inl e \<Rightarrow> if e = FileNotFoundError then Inr acc else Inl e
          | Inr img \<Rightarrow>
              bindE (preprocess_image rs wb img annotation_data) (\<lambda>normalized_image.
                Inr (fst acc @ [normalized_image], snd acc @ [annotation_data]))))))"

fun files_loop :: "resampler \<Rightarrow> wide_box \<Rightarrow> filesystem \<Rightarrow> string \<Rightarrow> string \<Rightarrow> string list \<Rightarrow> lists \<Rightarrow> exn + lists" where
  "files_loop rs wb fs images_path folder_path [] acc = Inr acc"
| "files_loop rs wb fs images_path folder_path (annotation_file # rest) acc =
     bindE (process_file rs wb fs images_path (path_join folder_path annotation_file) acc)
       (files_loop rs wb fs images_path folder_path rest)"

fun folders_loop :: "resampler \<Rightarrow> wide_box \<Rightarrow> filesystem \<Rightarrow> string \<Rightarrow> string \<Rightarrow> string list \<Rightarrow> lists \<Rightarrow> exn + lists" where
  "folders_loop rs wb fs images_path annotations_path [] acc = Inr acc"
| "folders_loop rs wb fs images_path annotations_path (annotation_folder # rest) acc =
     bindE (listdir fs (path_join annotations_path annotation_folder)) (\<lambda>files.
     bindE (files_loop rs wb fs images_path (path_join annotations_path annotation_folder) files acc)
       (folders_loop rs wb fs images_path annotations_path rest))"

definition load_and_preprocess_images ::
  "resampler \<Rightarrow> wide_box \<Rightarrow> filesystem \<Rightarrow> string \<Rightarrow> string \<Rightarrow> exn + (real ndarray \<times> annotation list)" where
  "load_and_preprocess_images rs wb fs images_path annotations_path =
     bindE (listdir fs annotations_path) (\<lambda>folders.
     bindE (folders_loop rs wb fs images_path annotations_path folders ([], [])) (\<lambda>acc.
     bindE (np_stack (fst acc)) (\<lambda>processed_images.
       Inr (processed_images, snd acc))))"

section \<open>The training loop\<close>

subsection \<open>Array operations the loop uses\<close>

text \<open>\<^verbatim>\<open>np.ones((m, n))\<close> and \<^verbatim>\<open>np.zeros((m, n))\<close>: a \<^verbatim>\<open>ValueError\<close> on a
  negative dimension.\<close>

definition np_ones :: "int \<Rightarrow> int \<Rightarrow> exn + real ndarray" where
  "np_ones m n = (if m < 0 \<or> n < 0 then Inl ValueError else Inr (mk_array [nat m, nat n] (\<lambda>idx. 1)))"

definition np_zeros :: "int \<Rightarrow> int \<Rightarrow> exn + real ndarray" where
  "np_zeros m n = (if m < 0 \<or> n < 0 then Inl ValueError else Inr (mk_array [nat m, nat n] (\<lambda>idx. 0)))"

text \<open>\<^verbatim>\<open>a.shape[0]\<close>.\<close>

definition shape0 :: "'a ndarray \<Rightarrow> exn + int" where
  "shape0 a = (case shape a of [] \<Rightarrow> Inl IndexError | n # _ \<Rightarrow> Inr (int n))"

text \<open>
  \<^verbatim>\<open>a[idx]\<close> for an integer array \<open>idx\<close>: row \<open>i\<close> of the result is row \<open>idx[i]\<close>
  of \<open>a\<close>, a negative index counting from the end; an \<^verbatim>\<open>IndexError\<close> when an index
  is out of range. \<^verbatim>\<open>a[k]\<close> for one integer \<open>k\<close> is the single row.
\<close>

definition row_index :: "nat \<Rightarrow> int \<Rightarrow> nat" where
  "row_index n k = nat (if k < 0 then k + int n else k)"

definition take_rows :: "'a ndarray \<Rightarrow> int list \<Rightarrow> exn + 'a ndarray" where
  "take_rows a idx =
     (case shape a of
        [] \<Rightarrow> Inl IndexError
      | n # rest \<Rightarrow>
          if list_all (\<lambda>k. - int n \<le> k \<and> k < int n) idx
          then Inr \<lparr> shape = length idx # rest,
                      item = (\<lambda>ix. case ix of [] \<Rightarrow> None
                                | i # r \<Rightarrow> if i < length idx then item a (row_index n (idx ! i) # r) else None) \<rparr>
          else Inl IndexError)"

definition get_row :: "'a ndarray \<Rightarrow> int \<Rightarrow> exn + 'a ndarray" where
  "get_row a k =
     (case shape a of
        [] \<Rightarrow> Inl IndexError
      | n # rest \<Rightarrow>
          if - int n \<le> k \<and> k < int n
          then Inr \<lparr> shape = rest, item = (\<lambda>ix. item a (row_index n k # ix)) \<rparr>
          else Inl IndexError)"

text \<open>\<^verbatim>\<open>0.5 * gen_imgs + 0.5\<close>.\<close>

definition rescale :: "real ndarray \<Rightarrow> real ndarray" where
  "rescale a = \<lparr> shape = shape a, item = (\<lambda>idx. map_option (\<lambda>v. 0.5 * v + 0.5) (item a idx)) \<rparr>"

text \<open>\<^verbatim>\<open>0.5 * np.add(a, b)\<close> on two results of \<^verbatim>\<open>train_on_batch\<close>, each a
  loss and an accuracy.\<close>

definition half_np_add :: "real \<times> real \<Rightarrow> real \<times> real \<Rightarrow> real \<times> real" where
  "half_np_add a b = (0.5 * (fst a + fst b), 0.5 * (snd a + snd b))"

text \<open>\<^verbatim>\<open>a % b\<close> on integers, and \<^verbatim>\<open>str(i)\<close>.\<close>

definition py_mod :: "int \<Rightarrow> int \<Rightarrow> exn + int" where
  "py_mod a b = (if b = 0 then Inl ZeroDivisionError else Inr (a mod b))"

fun digits :: "nat \<Rightarrow> string" where
  "digits n = (if n < 10 then [char_of (48 + n)] else digits (n div 10) @ [char_of (48 + n mod 10)])"

definition py_str :: "int \<Rightarrow> string" where
  "py_str i = (if i < 0 then CHR ''-'' # digits (nat (- i)) else digits (nat i))"

subsection \<open>Library calls, the world and the call log\<close>

text \<open>
  The random number generator, the three models' weights, the plotting state and the disk
  are one opaque world \<open>'w\<close>. Each call into the numeric, learning and plotting
  libraries is a field of \<open>library\<close>: given its arguments and the world it raises or
  returns a result and the next world. Nothing is assumed of these functions in the
  definitions. The objects \<^verbatim>\<open>generator\<close>, \<^verbatim>\<open>discriminator\<close> and
  \<^verbatim>\<open>gan\<close> that \<^verbatim>\<open>train_gan\<close> is given are the fields named after their
  methods; the discriminator is compiled with the accuracy metric, so its
  \<^verbatim>\<open>train_on_batch\<close> returns a loss and an accuracy. Every call that returns is
  appended to a log with its arguments and its result.
\<close>

text \<open>
  The fields stand for these calls:
  \<^item> \<open>np_random_randint low high n\<close> for \<^verbatim>\<open>np.random.randint(low, high, n)\<close>;
  \<^item> \<open>np_random_normal m n\<close> for \<^verbatim>\<open>np.random.normal(0, 1, (m, n))\<close>;
  \<^item> \<open>generator_predict x\<close> for \<^verbatim>\<open>generator.predict(x)\<close>;
  \<^item> \<open>discriminator_train_on_batch x y\<close> for \<^verbatim>\<open>discriminator.train_on_batch(x, y)\<close>;
  \<^item> \<open>gan_train_on_batch x y\<close> for \<^verbatim>\<open>gan.train_on_batch(x, y)\<close>;
  \<^item> \<open>py_print epoch d_loss d_accuracy g_loss\<close> for the formatted \<^verbatim>\<open>print\<close> of
    a pass;
  \<^item> \<open>plt c\<close> for the plotting calls of \<^verbatim>\<open>save_images\<close>:
    \<^verbatim>\<open>plt.subplots(5, 5, ...)\<close>, \<^verbatim>\<open>axs[i, j].imshow(im)\<close>,
    \<^verbatim>\<open>axs[i, j].axis('off')\<close>, \<^verbatim>\<open>plt.show()\<close>, \<^verbatim>\<open>fig.savefig(name)\<close>
    and \<^verbatim>\<open>plt.close()\<close>.
\<close>

datatype plot_call =
    Subplots nat nat
  | Imshow nat nat "real ndarray"
  | Axis_off nat nat
  | Show
  | Savefig string
  | Close

record 'w library =
  np_random_randint :: "int \<Rightarrow> int \<Rightarrow> int \<Rightarrow> 'w \<Rightarrow> exn + int list \<times> 'w"
  np_random_normal :: "int \<Rightarrow> int \<Rightarrow> 'w \<Rightarrow> exn + real ndarray \<times> 'w"
  generator_predict :: "real ndarray \<Rightarrow> 'w \<Rightarrow> exn + real ndarray \<times> 'w"
  discriminator_train_on_batch :: "real ndarray \<Rightarrow> real ndarray \<Rightarrow> 'w \<Rightarrow> exn + (real \<times> real) \<times> 'w"
  gan_train_on_batch :: "real ndarray \<Rightarrow> real ndarray \<Rightarrow> 'w \<Rightarrow> exn + real \<times> 'w"
  py_print :: "int \<Rightarrow> real \<Rightarrow> real \<Rightarrow> real \<Rightarrow> 'w \<Rightarrow> exn + unit \<times> 'w"
  plt :: "plot_call \<Rightarrow> 'w \<Rightarrow> exn + unit \<times> 'w"

datatype event =
    Randint int int int "int list"
  | Normal int int "real ndarray"
  | Predict "real ndarray" "real ndarray"
  | Train_D "real ndarray" "real ndarray" "real \<times> real"
  | Train_G "real ndarray" "real ndarray" real
  | Print int real real real
  | Plot plot_call

record 'w state =
  world :: 'w
  calls :: "event list"

type_synonym ('w, 'a) comp = "'w state \<Rightarrow> (exn + 'a) \<times> 'w state"

definition returnS :: "'a \<Rightarrow> ('w, 'a) comp" where
  "returnS v s = (Inr v, s)"

definition liftE :: "exn + 'a \<Rightarrow> ('w, 'a) comp" where
  "liftE r s = (r, s)"

definition bindS :: "('w, 'a) comp \<Rightarrow> ('a \<Rightarrow> ('w, 'b) comp) \<Rightarrow> ('w, 'b) comp" where
  "bindS m f s = (case m s of (Inl e, s') \<Rightarrow> (Inl e, s') | (Inr v, s') \<Rightarrow> f v s')"

definition call :: "('w \<Rightarrow> exn + 'a \<times> 'w) \<Rightarrow> ('a \<Rightarrow> event) \<Rightarrow> ('w, 'a) comp" where
  "call f ev s =
     (case f (world s) of
        Inl e \<Rightarrow> (Inl e, s)
      | Inr (r, w') \<Rightarrow> (Inr r, \<lparr> world = w', calls = calls s @ [ev r] \<rparr>))"

subsection \<open>\<^verbatim>\<open>save_images\<close>\<close>

fun cols_loop :: "'w library \<Rightarrow> real ndarray \<Rightarrow> nat \<Rightarrow> nat list \<Rightarrow> nat \<Rightarrow> ('w, nat) comp" where
  "cols_loop lib gen_imgs i [] count = returnS count"
| "cols_loop lib gen_imgs i (j # js) count =
     bindS (liftE (get_row gen_imgs (int count))) (\<lambda>im.
     bindS (call (plt lib (Imshow i j im)) (\<lambda>_. Plot (Imshow i j im))) (\<lambda>_.
     bindS (call (plt lib (Axis_off i j)) (\<lambda>_. Plot (Axis_off i j))) (\<lambda>_.
       cols_loop lib gen_imgs i js (count + 1))))"

fun rows_loop :: "'w library \<Rightarrow> real ndarray \<Rightarrow> nat list \<Rightarrow> nat \<Rightarrow> ('w, nat) comp" where
  "rows_loop lib gen_imgs [] count = returnS count"
| "rows_loop lib gen_imgs (i # rest) count =
     bindS (cols_loop lib gen_imgs i [0..<5] count) (rows_loop lib gen_imgs rest)"

definition image_file_name :: "string \<Rightarrow> int \<Rightarrow> string" where
  "image_file_name folder epoch = folder @ ''/gan_generated_image_epoch_'' @ py_str epoch @ ''.png''"

definition save_images :: "'w library \<Rightarrow> int \<Rightarrow> string \<Rightarrow> ('w, unit) comp" where
  "save_images lib epoch folder =
     bindS (call (np_random_normal lib 25 100) (Normal 25 100)) (\<lambda>noise.
     bindS (call (generator_predict lib noise) (Predict noise)) (\<lambda>gen_imgs.
     bindS (call (plt lib (Subplots 5 5)) (\<lambda>_. Plot (Subplots 5 5))) (\<lambda>_.
     bindS (rows_loop lib (rescale gen_imgs) [0..<5] 0) (\<lambda>_.
     bindS (call (plt lib Show) (\<lambda>_. Plot Show)) (\<lambda>_.
     bindS (call (plt lib (Savefig (image_file_name folder epoch)))
              (\<lambda>_. Plot (Savefig (image_file_name folder epoch)))) (\<lambda>_.
       call (plt lib Close) (\<lambda>_. Plot Close)))))))"

subsection \<open>\<^verbatim>\<open>train_gan\<close>\<close>

text \<open>
  One pass of the loop body for the given \<open>epoch\<close>. \<open>processed_images\<close> is the global
  array the preprocessing produced. The condition \<^verbatim>\<open>epoch % save_interval == 0 or
  epoch == 0\<close> evaluates the remainder first.
\<close>

definition train_step ::
  "'w library \<Rightarrow> real ndarray \<Rightarrow> int \<Rightarrow> int \<Rightarrow> real ndarray \<Rightarrow> real ndarray \<Rightarrow> int \<Rightarrow> ('w, unit) comp" where
  "train_step lib processed_images batch_size save_interval valid fake epoch =
     bindS (liftE (shape0 processed_images)) (\<lambda>n.
     bindS (call (np_random_randint lib 0 n batch_size) (Randint 0 n batch_size)) (\<lambda>idx.
     bindS (liftE (take_rows processed_images idx)) (\<lambda>real_imgs.
     bindS (call (np_random_normal lib batch_size 100) (Normal batch_size 100)) (\<lambda>noise.
     bindS (call (generator_predict lib noise) (Predict noise)) (\<lambda>gen_imgs.
     bindS (call (discriminator_train_on_batch lib real_imgs valid) (Train_D real_imgs valid)) (\<lambda>d_loss_real.
     bindS (call (discriminator_train_on_batch lib gen_imgs fake) (Train_D gen_imgs fake)) (\<lambda>d_loss_fake.
       let d_loss = half_np_add d_loss_real d_loss_fake in
     bindS (call (np_random_normal lib batch_size 100) (Normal batch_size 100)) (\<lambda>noise2.
     bindS (call (gan_train_on_batch lib noise2 valid) (Train_G noise2 valid)) (\<lambda>g_loss.
     bindS (liftE (py_mod epoch save_interval)) (\<lambda>r.
       if r = 0 \<or> epoch = 0 then
         bindS (call (py_print lib epoch (fst d_loss) (100 * snd d_loss) g_loss)
                  (\<lambda>_. Print epoch (fst d_loss) (100 * snd d_loss) g_loss)) (\<lambda>_.
           save_images lib epoch ''images/'')
       else returnS ()))))))))))"

fun train_loop ::
  "'w library \<Rightarrow> real ndarray \<Rightarrow> int \<Rightarrow> int \<Rightarrow> real ndarray \<Rightarrow> real ndarray \<Rightarrow> int list \<Rightarrow> ('w, unit) comp" where
  "train_loop lib processed_images batch_size save_interval valid fake [] = returnS ()"
| "train_loop lib processed_images batch_size save_interval valid fake (epoch # rest) =
     bindS (train_step lib processed_images batch_size save_interval valid fake epoch) (\<lambda>_.
       train_loop lib processed_images batch_size save_interval valid fake rest)"

definition train_gan :: "'w library \<Rightarrow> real ndarray \<Rightarrow> int \<Rightarrow> int \<Rightarrow> int \<Rightarrow> ('w, unit) comp" where
  "train_gan lib processed_images epochs batch_size save_interval =
     bindS (liftE (np_ones batch_size 1)) (\<lambda>valid.
     bindS (liftE (np_zeros batch_size 1)) (\<lambda>fake.
       train_loop lib processed_images batch_size save_interval valid fake [0..epochs - 1]))"

section \<open>Reading the call log\<close>

text \<open>
  The claims about the training loop are statements about the log of a run. The
  predicates below classify single calls and describe the calls one execution of
  \<^verbatim>\<open>save_images\<close> and one pass of the loop body append when they return.
\<close>

fun is_training_call :: "event \<Rightarrow> bool" where
  "is_training_call (Randint low high n idx) = True"
| "is_training_call (Train_D x y loss) = True"
| "is_training_call (Train_G x y loss) = True"
| "is_training_call ev = False"

fun is_generator_update :: "event \<Rightarrow> bool" where
  "is_generator_update (Train_G x y loss) = True"
| "is_generator_update ev = False"

fun is_batch_draw :: "event \<Rightarrow> bool" where
  "is_batch_draw (Randint low high n idx) = True"
| "is_batch_draw ev = False"


fun is_grid_call :: "event \<Rightarrow> bool" where
  "is_grid_call (Plot (Imshow i j im)) = True"
| "is_grid_call (Plot (Axis_off i j)) = True"
| "is_grid_call ev = False"

definition generator_updates :: "event list \<Rightarrow> nat" where
  "generator_updates evs = length (filter is_generator_update evs)"

definition batch_draws :: "event list \<Rightarrow> nat" where
  "batch_draws evs = length (filter is_batch_draw evs)"

text \<open>
  A returning \<^verbatim>\<open>save_images\<close>: the noise draw of shape (25, 100), the prediction,
  the five by five figure, fifty calls that show a picture or switch an axis off, and
  then show, save under the epoch's file name, and close.
\<close>

definition save_events :: "int \<Rightarrow> string \<Rightarrow> event list \<Rightarrow> bool" where
  "save_events epoch folder evs \<longleftrightarrow>
     (\<exists>noise gen_imgs grid.
        evs = [Normal 25 100 noise, Predict noise gen_imgs, Plot (Subplots 5 5)] @ grid @
              [Plot Show, Plot (Savefig (image_file_name folder epoch)), Plot Close] \<and>
        length grid = 50 \<and> list_all is_grid_call grid)"

text \<open>
  A returning pass of the loop body: the index draw over the rows of
  \<open>processed_images\<close>, the first noise draw, the prediction, the two discriminator
  updates, the second noise draw and the generator update, in this order, each value
  being what the call before it returned; after them the printed line and the calls of
  \<^verbatim>\<open>save_images\<close> when the epoch is a multiple of the interval, and nothing
  otherwise.
\<close>

definition iteration_events ::
  "'w library \<Rightarrow> real ndarray \<Rightarrow> int \<Rightarrow> int \<Rightarrow> real ndarray \<Rightarrow> real ndarray \<Rightarrow> int \<Rightarrow> event list \<Rightarrow> bool" where
  "iteration_events lib processed_images batch_size save_interval valid fake epoch evs \<longleftrightarrow>
     (\<exists>n idx real_imgs noise gen_imgs d_real d_fake noise2 g_loss rest.
        shape0 processed_images = Inr n \<and> take_rows processed_images idx = Inr real_imgs \<and>
        (\<exists>w w'. np_random_randint lib 0 n batch_size w = Inr (idx, w')) \<and>
        (\<exists>w w'. np_random_normal lib batch_size 100 w = Inr (noise, w')) \<and>
        (\<exists>w w'. np_random_normal lib batch_size 100 w = Inr (noise2, w')) \<and>
        evs = [Randint 0 n batch_size idx, Normal batch_size 100 noise, Predict noise gen_imgs,
               Train_D real_imgs valid d_real, Train_D gen_imgs fake d_fake,
               Normal batch_size 100 noise2, Train_G noise2 valid g_loss] @ rest \<and>
        (if epoch mod save_interval = 0
         then \<exists>grid. rest = Print epoch (fst (half_np_add d_real d_fake))
                              (100 * snd (half_np_add d_real d_fake)) g_loss # grid \<and>
                     save_events epoch ''images/'' grid
         else rest = []))"

text \<open>Every training call in a log carries one of the two label arrays, the generator's
  always the first.\<close>

fun label_ok :: "real ndarray \<Rightarrow> real ndarray \<Rightarrow> event \<Rightarrow> bool" where
  "label_ok valid fake (Train_D x y loss) = (y = valid \<or> y = fake)"
| "label_ok valid fake (Train_G x y loss) = (y = valid)"
| "label_ok valid fake ev = True"

text \<open>A computation appends only calls that satisfy \<open>P\<close>, however it ends.\<close>

definition appends :: "(event \<Rightarrow> bool) \<Rightarrow> ('w, 'a) comp \<Rightarrow> bool" where
  "appends P m \<longleftrightarrow> (\<forall>s r s'. m s = (r, s') \<longrightarrow> (\<exists>evs. calls s' = calls s @ evs \<and> list_all P evs))"

subsection \<open>The protocol of a run\<close>

text \<open>
  The order of the calls of a run, however the run ends, is fixed by an automaton that
  reads the log call by call. Its state is the number of the pass under way and the
  position in this pass, with the values later calls must repeat:
  \<^item> \<open>Draw\<close>: the pass begins with the draw of \<open>batch_size\<close> indices between 0 and
    the number of rows of \<open>processed_images\<close>; a pass begins only while its number is
    below \<open>epochs\<close>;
  \<^item> \<open>Noise idx\<close>: next the first noise draw of shape (\<open>batch_size\<close>, 100);
  \<^item> \<open>Gen idx noise\<close>: next the prediction on this noise;
  \<^item> \<open>Real idx gen_imgs\<close>: next the discriminator update on the rows of
    \<open>processed_images\<close> at \<open>idx\<close>, against the ones;
  \<^item> \<open>Fake gen_imgs d_real\<close>: next the discriminator update on the prediction, against
    the zeros;
  \<^item> \<open>Noise2 d_loss\<close>: next the second noise draw;
  \<^item> \<open>Upd d_loss noise2\<close>: next the generator update on the second noise, against the
    ones. After it the remainder \<^verbatim>\<open>epoch % save_interval\<close> decides: the pass is over,
    or the report follows, or (interval zero) the run cannot go on, \<open>Halt\<close>;
  \<^item> \<open>Report d_loss g_loss\<close>: next the printed line with these values;
  \<^item> \<open>SNoise\<close>, \<open>SGen noise\<close>, \<open>SFig g\<close>: the noise draw of shape (25, 100), the
    prediction on it, and the five by five figure; \<open>g\<close> is the rescaled prediction;
  \<^item> \<open>Grid g k shown\<close>: picture \<open>k\<close> of the grid is row \<open>k\<close> of \<open>g\<close>, shown at
    row \<open>k div 5\<close> and column \<open>k mod 5\<close>, after which the axis of that cell is
    switched off; after 25 pictures the figure is shown;
  \<^item> \<open>SSave\<close>, \<open>SClose\<close>: the figure is saved under the pass's file name and closed,
    which ends the pass.
\<close>

datatype phase =
    Draw
  | Noise "int list"
  | Gen "int list" "real ndarray"
  | Real "int list" "real ndarray"
  | Fake "real ndarray" "real \<times> real"
  | Noise2 "real \<times> real"
  | Upd "real \<times> real" "real ndarray"
  | Halt
  | Report "real \<times> real" real
  | SNoise
  | SGen "real ndarray"
  | SFig "real ndarray"
  | Grid "real ndarray" nat bool
  | SSave
  | SClose

definition after_update :: "int \<Rightarrow> int \<Rightarrow> (real \<times> real) \<Rightarrow> real \<Rightarrow> int \<times> phase" where
  "after_update save_interval epoch d_loss g_loss =
     (case py_mod epoch save_interval of
        Inl _ \<Rightarrow> (epoch, Halt)
      | Inr r \<Rightarrow> if r = 0 \<or> epoch = 0 then (epoch, Report d_loss g_loss) else (epoch + 1, Draw))"

definition protocol ::
  "real ndarray \<Rightarrow> int \<Rightarrow> int \<Rightarrow> int \<Rightarrow> int \<times> phase \<Rightarrow> event \<Rightarrow> (int \<times> phase) option" where
  "protocol processed_images epochs batch_size save_interval q ev =
     (case q of (epoch, ph) \<Rightarrow>
       (case ph of
          Draw \<Rightarrow>
            (case ev of
               Randint low high n idx \<Rightarrow>
                 if low = 0 \<and> shape0 processed_images = Inr high \<and> n = batch_size \<and>
                    0 \<le> epoch \<and> epoch < epochs
                 then Some (epoch, Noise idx) else None
             | _ \<Rightarrow> None)
        | Noise idx \<Rightarrow>
            (case ev of
               Normal m n noise \<Rightarrow>
                 if m = batch_size \<and> n = 100 then Some (epoch, Gen idx noise) else None
             | _ \<Rightarrow> None)
        | Gen idx noise \<Rightarrow>
            (case ev of
               Predict x gen_imgs \<Rightarrow> if x = noise then Some (epoch, Real idx gen_imgs) else None
             | _ \<Rightarrow> None)
        | Real idx gen_imgs \<Rightarrow>
            (case ev of
               Train_D x y d_real \<Rightarrow>
                 if take_rows processed_images idx = Inr x \<and> np_ones batch_size 1 = Inr y
                 then Some (epoch, Fake gen_imgs d_real) else None
             | _ \<Rightarrow> None)
        | Fake gen_imgs d_real \<Rightarrow>
            (case ev of
               Train_D x y d_fake \<Rightarrow>
                 if x = gen_imgs \<and> np_zeros batch_size 1 = Inr y
                 then Some (epoch, Noise2 (half_np_add d_real d_fake)) else None
             | _ \<Rightarrow> None)
        | Noise2 d_loss \<Rightarrow>
            (case ev of
               Normal m n noise2 \<Rightarrow>
                 if m = batch_size \<and> n = 100 then Some (epoch, Upd d_loss noise2) else None
             | _ \<Rightarrow> None)
        | Upd d_loss noise2 \<Rightarrow>
            (case ev of
               Train_G x y g_loss \<Rightarrow>
                 if x = noise2 \<and> np_ones batch_size 1 = Inr y
                 then Some (after_update save_interval epoch d_loss g_loss) else None
             | _ \<Rightarrow> None)
        | Halt \<Rightarrow> None
        | Report d_loss g_loss \<Rightarrow>
            (case ev of
               Print e a b c \<Rightarrow>
                 if e = epoch \<and> a = fst d_loss \<and> b = 100 * snd d_loss \<and> c = g_loss
                 then Some (epoch, SNoise) else None
             | _ \<Rightarrow> None)
        | SNoise \<Rightarrow>
            (case ev of
               Normal m n noise \<Rightarrow> if m = 25 \<and> n = 100 then Some (epoch, SGen noise) else None
             | _ \<Rightarrow> None)
        | SGen noise \<Rightarrow>
            (case ev of
               Predict x gen_imgs \<Rightarrow> if x = noise then Some (epoch, SFig (rescale gen_imgs)) else None
             | _ \<Rightarrow> None)
        | SFig g \<Rightarrow>
            (case ev of
               Plot (Subplots rows cols) \<Rightarrow>
                 if rows = 5 \<and> cols = 5 then Some (epoch, Grid g 0 False) else None
             | _ \<Rightarrow> None)
        | Grid g k shown \<Rightarrow>
            (case ev of
               Plot (Imshow i j im) \<Rightarrow>
                 if \<not> shown \<and> k < 25 \<and> i = k div 5 \<and> j = k mod 5 \<and> get_row g (int k) = Inr im
                 then Some (epoch, Grid g k True) else None
             | Plot (Axis_off i j) \<Rightarrow>
                 if shown \<and> i = k div 5 \<and> j = k mod 5 then Some (epoch, Grid g (k + 1) False) else None
             | Plot Show \<Rightarrow> if \<not> shown \<and> k = 25 then Some (epoch, SSave) else None
             | _ \<Rightarrow> None)
        | SSave \<Rightarrow>
            (case ev of
               Plot (Savefig name) \<Rightarrow>
                 if name = image_file_name ''images/'' epoch \<and> save_interval \<noteq> 0 \<and>
                    epoch mod save_interval = 0 \<and> 0 \<le> epoch \<and> epoch < epochs
                 then Some (epoch, SClose) else None
             | _ \<Rightarrow> None)
        | SClose \<Rightarrow>
            (case ev of Plot Close \<Rightarrow> Some (epoch + 1, Draw) | _ \<Rightarrow> None)))"

text \<open>The state after a log, when every call of the log is the one the state before it
  expects.\<close>

fun run_steps :: "('q \<Rightarrow> event \<Rightarrow> 'q option) \<Rightarrow> 'q \<Rightarrow> event list \<Rightarrow> 'q option" where
  "run_steps d q [] = Some q"
| "run_steps d q (ev # evs) = (case d q ev of None \<Rightarrow> None | Some q' \<Rightarrow> run_steps d q' evs)"

text \<open>
  A computation keeps to an automaton from state \<open>q\<close>: however it ends, the calls it
  appends lead the automaton from \<open>q\<close> to a state, and when it returns a value, the value
  and that state satisfy \<open>Q\<close>.
\<close>

definition tracks ::
  "('q \<Rightarrow> event \<Rightarrow> 'q option) \<Rightarrow> 'q \<Rightarrow> ('w, 'a) comp \<Rightarrow> ('a \<Rightarrow> 'q \<Rightarrow> bool) \<Rightarrow> bool" where
  "tracks d q m Q \<longleftrightarrow>
     (\<forall>s r s'. m s = (r, s') \<longrightarrow>
        (\<exists>evs q'. calls s' = calls s @ evs \<and> run_steps d q evs = Some q' \<and>
                  (\<forall>v. r = Inr v \<longrightarrow> Q v q')))"

text \<open>The passes whose generator update is done, and the passes whose batch is drawn, in
  a state of the protocol.\<close>

fun updated :: "int \<times> phase \<Rightarrow> int" where
  "updated (epoch, Draw) = epoch"
| "updated (epoch, Noise idx) = epoch"
| "updated (epoch, Gen idx noise) = epoch"
| "updated (epoch, Real idx gen_imgs) = epoch"
| "updated (epoch, Fake gen_imgs d_real) = epoch"
| "updated (epoch, Noise2 d_loss) = epoch"
| "updated (epoch, Upd d_loss noise2) = epoch"
| "updated (epoch, ph) = epoch + 1"

fun drawn :: "int \<times> phase \<Rightarrow> int" where
  "drawn (epoch, Draw) = epoch"
| "drawn (epoch, ph) = epoch + 1"

text \<open>
  What the libraries document of their calls, as far as the loop relies on it: with
  \<open>low < high\<close> the integer draw returns as many indices as asked for, each in the
  half-open range; the normal draw returns an array of the shape asked for; a prediction
  has one row per input row; and none of the calls raises.
\<close>

definition library_contract :: "'w library \<Rightarrow> bool" where
  "library_contract lib \<longleftrightarrow>
     (\<forall>low high n w. low < high \<and> 0 \<le> n \<longrightarrow>
        (\<exists>idx w'. np_random_randint lib low high n w = Inr (idx, w') \<and> length idx = nat n \<and>
                  list_all (\<lambda>k. low \<le> k \<and> k < high) idx)) \<and>
     (\<forall>m n w. 0 \<le> m \<and> 0 \<le> n \<longrightarrow>
        (\<exists>a w'. np_random_normal lib m n w = Inr (a, w') \<and> shape a = [nat m, nat n])) \<and>
     (\<forall>x w. \<exists>y w'. generator_predict lib x w = Inr (y, w') \<and>
        (\<forall>n r. shape x = n # r \<longrightarrow> (\<exists>r'. shape y = n # r'))) \<and>
     (\<forall>x y w. \<exists>l w'. discriminator_train_on_batch lib x y w = Inr (l, w')) \<and>
     (\<forall>x y w. \<exists>l w'. gan_train_on_batch lib x y w = Inr (l, w')) \<and>
     (\<forall>e a b c w. \<exists>w'. py_print lib e a b c w = Inr ((), w')) \<and>
     (\<forall>c w. \<exists>w'. plt lib c w = Inr ((), w'))"

section \<open>Example inputs\<close>

text \<open>
  A small annotation tree in the layout of the data set (one folder per breed, one XML
  file per image), three-band and one-band pictures of 333 by 500 pixels, and a
  nearest-neighbour resampling filter. They are the concrete inputs at which the theorems
  below are instantiated.
\<close>

definition annotation_doc :: "string \<Rightarrow> string list \<Rightarrow> element" where
  "annotation_doc name box =
     Element ''annotation'' None
       [Element ''folder'' (Some ''02085620'') [],
        Element ''filename'' (Some name) [],
        Element ''size'' None
          [Element ''width'' (Some ''333'') [], Element ''height'' (Some ''500'') [],
           Element ''depth'' (Some ''3'') []],
        Element ''object'' None
          [Element ''name'' (Some ''Chihuahua'') [],
           Element ''bndbox'' None
             (map (\<lambda>(t, s). Element t (Some s) []) (zip [''xmin'', ''ymin'', ''xmax'', ''ymax''] box))]]"

definition example_image :: "mode \<Rightarrow> image" where
  "example_image m = \<lparr> im_mode = m, im_width = 333, im_height = 500,
                        im_data = (\<lambda>x y b. of_nat (x + y + b)), im_truncated = False \<rparr>"

definition nearest :: resampler where
  "nearest im sz = Inr (\<lambda>x y b. im_data im (x * im_width im div fst sz) (y * im_height im div snd sz) b)"

definition no_wide :: wide_box where
  "no_wide xmin ymin xmax ymax = Inl OverflowError"

definition example_fs :: filesystem where
  "example_fs = map_of
     [(''Annotation/'', Dir [''n02085620-Chihuahua'']),
      (''Annotation/n02085620-Chihuahua'', Dir [''dog_rgb'', ''dog_gray'', ''dog_gone'']),
      (''Annotation/n02085620-Chihuahua/dog_rgb'',
         File (Xml (annotation_doc ''dog_rgb'' [''25'', ''10'', ''276'', ''498'']))),
      (''Annotation/n02085620-Chihuahua/dog_gray'',
         File (Xml (annotation_doc ''dog_gray'' [''0'', ''0'', ''300'', ''200'']))),
      (''Annotation/n02085620-Chihuahua/dog_gone'',
         File (Xml (annotation_doc ''dog_gone'' [''1'', ''2'', ''3'', ''4'']))),
      (''all-dogs/dog_rgb.jpg'', File (Picture (example_image Mode_RGB))),
      (''all-dogs/dog_gray.jpg'', File (Picture (example_image Mode_L)))]"

definition example_annotation :: "string \<Rightarrow> int \<Rightarrow> int \<Rightarrow> int \<Rightarrow> int \<Rightarrow> annotation" where
  "example_annotation name xmin ymin xmax ymax =
     [(''filename'', PyStr name), (''width'', PyInt 333), (''height'', PyInt 500),
      (''class'', PyStr ''Chihuahua''), (''xmin'', PyInt xmin), (''ymin'', PyInt ymin),
      (''xmax'', PyInt xmax), (''ymax'', PyInt ymax)]"


definition malformed_fs :: filesystem where
  "malformed_fs = example_fs
     (''Annotation/n02085620-Chihuahua'' \<mapsto> Dir [''dog_rgb'', ''dog_nobox'', ''dog_gray''],
      ''Annotation/n02085620-Chihuahua/dog_nobox'' \<mapsto>
         File (Xml (Element ''annotation'' None
           [Element ''filename'' (Some ''dog_nobox'') [],
            Element ''size'' None
              [Element ''width'' (Some ''333'') [], Element ''height'' (Some ''500'') []],
            Element ''object'' None [Element ''name'' (Some ''Chihuahua'') []]])))"

text \<open>The example tree with a bounding box whose right edge lies left of its left edge,
  and a tree in which the image directory's name is taken by a regular file.\<close>

definition inverted_fs :: filesystem where
  "inverted_fs = example_fs
     (''Annotation/n02085620-Chihuahua/dog_rgb'' \<mapsto>
        File (Xml (annotation_doc ''dog_rgb'' [''276'', ''10'', ''25'', ''498''])))"


text \<open>
  A library that counts its calls in the world and returns fixed values, three stored
  images, and the initial state with an empty log.
\<close>

definition example_library :: "nat library" where
  "example_library =
     \<lparr> np_random_randint = (\<lambda>low high n w. Inr (replicate (nat n) low, Suc w)),
       np_random_normal = (\<lambda>m n w. Inr (mk_array [nat m, nat n] (\<lambda>idx. 0), Suc w)),
       generator_predict = (\<lambda>x w. Inr (mk_array (take 1 (shape x) @ [128, 128, 3]) (\<lambda>idx. 0), Suc w)),
       discriminator_train_on_batch = (\<lambda>x y w. Inr ((2, 1), Suc w)),
       gan_train_on_batch = (\<lambda>x y w. Inr (3, Suc w)),
       py_print = (\<lambda>e a b c w. Inr ((), Suc w)),
       plt = (\<lambda>c w. Inr ((), Suc w)) \<rparr>"

text \<open>
  A library whose index draw counts down from the last row and whose prediction gives
  row \<open>k\<close> the value \<open>k\<close>, three stored images that differ, and the same library with
  a disk that lacks the directory \<^verbatim>\<open>images/\<close>, so that saving a figure fails.
\<close>

definition ramp_library :: "nat library" where
  "ramp_library = example_library
     \<lparr> np_random_randint := (\<lambda>low high n w. Inr (map (\<lambda>i. high - 1 - int i) [0..<nat n], Suc w)),
       generator_predict := (\<lambda>x w. Inr (mk_array (take 1 (shape x) @ [1]) (\<lambda>idx. real (hd idx)), Suc w)) \<rparr>"

definition ramp_images :: "real ndarray" where
  "ramp_images = mk_array [3, 1] (\<lambda>idx. real (hd idx))"

definition no_folder_library :: "nat library" where
  "no_folder_library = ramp_library
     \<lparr> plt := (\<lambda>c w. case c of Savefig name \<Rightarrow> Inl FileNotFoundError | _ \<Rightarrow> Inr ((), Suc w)) \<rparr>"

definition example_images :: "real ndarray" where
  "example_images = mk_array [3, 128, 128, 3] (\<lambda>idx. 0)"

definition start :: "nat state" where
  "start = \<lparr> world = 0, calls = [] \<rparr>"

text \<open>The shapes of the arrays in \<^verbatim>\<open>processed_images\<close> after a run.\<close>

definition shapes_of :: "exn + lists \<Rightarrow> exn + nat list list" where
  "shapes_of r = map_sum id (\<lambda>acc. map shape (fst acc)) r"

section \<open>Basic facts\<close>

lemma bindE_simps [simp]:
  "bindE (Inl e) f = Inl e"
  "bindE (Inr v) f = f v"
  by (simp_all add: bindE_def)

lemma bindE_eq_Inr: "bindE m f = Inr y \<longleftrightarrow> (\<exists>x. m = Inr x \<and> f x = Inr y)"
  by (cases m) simp_all

lemmas annotation_eval =
  parse_annotation_def ET_parse_def find_text_def et_find_def child_elems_def int_of_def
  py_int_def strip_def is_space_def parse_unsigned_def is_digit_def digit_val_def
  example_fs_def annotation_doc_def example_annotation_def



lemma not_sublist_dog_rgb: "\<not> sublist ''%s'' (path_join ''all-dogs/'' (''dog_rgb'' @ ''.jpg''))"
  by (simp add: path_join_def sublist_Cons_right)

lemma filename_example_annotation:
  "map_of (example_annotation name xmin ymin xmax ymax) ''filename'' = Some (PyStr name)"
  by (simp add: example_annotation_def)

lemma resize_Inr:
  assumes "resize rs c (w, h) = Inr r"
  shows "im_width r = w" and "im_height r = h" and "im_mode r = im_mode c"
  using assms by (auto simp: resize_def split: if_splits sum.splits)


lemma shape_np_array:
  "shape (np_array im) =
     (if bands (im_mode im) = 1 then [im_height im, im_width im]
      else [im_height im, im_width im, bands (im_mode im)])"
  by (simp add: np_array_def mk_array_def)

lemma shape_normalize_image [simp]: "shape (normalize_image a) = shape a"
  by (simp add: normalize_image_def)

text \<open>A byte divided by 255 lies between 0 and 1.\<close>

lemma byte_quotient_range:
  "0 \<le> real (unat (x :: 8 word)) / 255 \<and> real (unat x) / 255 \<le> 1"
proof -
  have "unat x < 2 ^ LENGTH(8)" by (rule unsigned_less)
  then have "unat x \<le> 255" by simp
  then have "(of_nat (unat x) :: real) \<le> of_nat 255" by (simp only: of_nat_le_iff)
  then have "(of_nat (unat x) :: real) \<le> 255" by (simp del: of_nat_unat)
  moreover have "(0 :: real) \<le> of_nat (unat x)" by (rule of_nat_0_le_iff)
  ultimately show ?thesis by (simp del: of_nat_unat)
qed

lemma item_normalize_eq:
  "item (normalize_image a) idx = map_option (\<lambda>v. real (unat v) / 255) (item a idx)"
  by (simp add: normalize_image_def del: of_nat_unat)

lemma item_normalize_image:
  assumes "item (normalize_image a) idx = Some v"
  shows "0 \<le> v \<and> v \<le> 1"
proof -
  from assms [unfolded item_normalize_eq map_option_eq_Some]
  obtain z :: "8 word" where "real (unat z) / 255 = v" by blast
  with byte_quotient_range [of z] show ?thesis by blast
qed

lemma item_np_array_in_bounds:
  "in_bounds (shape (np_array im)) idx \<Longrightarrow> \<exists>x. item (np_array im) idx = Some x"
  by (simp add: np_array_def mk_array_def split: if_splits)

lemma item_normalize_in_bounds:
  assumes "in_bounds (shape (normalize_image (np_array im))) idx"
  shows "\<exists>v. item (normalize_image (np_array im)) idx = Some v"
proof -
  from assms have "in_bounds (shape (np_array im)) idx" by simp
  then obtain x where "item (np_array im) idx = Some x"
    using item_np_array_in_bounds by blast
  then have "item (normalize_image (np_array im)) idx = Some (real (unat x) / 255)"
    by (simp only: item_normalize_eq option.map)
  then show ?thesis by blast
qed



text \<open>Once the image is open, the loop body appends what \<open>preprocess_image\<close> returns.\<close>

lemma process_file_opened:
  assumes "parse_annotation fs ap = Inr ann"
    and "map_of ann ''filename'' = Some (PyStr name)"
    and "\<not> sublist ''%s'' (path_join images_path (name @ ''.jpg''))"
    and "Image_open fs (path_join images_path (name @ ''.jpg'')) = Inr img"
  shows "process_file rs wb fs images_path ap acc =
           bindE (preprocess_image rs wb img ann) (\<lambda>arr. Inr (fst acc @ [arr], snd acc @ [ann]))"
  using assms by (simp add: process_file_def getitem_def str_add_def)

section \<open>Annotation records\<close>

text \<open>
  C5. For a valid annotation file (a well-formed document in which each of the eight
  paths finds an element, and the six numeric elements hold integer texts),
  \<^verbatim>\<open>parse_annotation\<close> returns the dictionary with exactly the keys filename, width,
  height, class, xmin, ymin, xmax, ymax in this order; filename and class hold the
  element texts, the other six the integers parsed from theirs.
\<close>

theorem parse_annotation_fields:
  assumes "fs p = Some (File (Xml doc))"
    and "et_find doc ''filename'' = Some e_filename"
    and "et_find doc ''size/width'' = Some e_width"
    and "el_text e_width = Some s_width" and "py_int s_width = Some width"
    and "et_find doc ''size/height'' = Some e_height"
    and "el_text e_height = Some s_height" and "py_int s_height = Some height"
    and "et_find doc ''object/name'' = Some e_class"
    and "et_find doc ''object/bndbox/xmin'' = Some e_xmin"
    and "el_text e_xmin = Some s_xmin" and "py_int s_xmin = Some xmin"
    and "et_find doc ''object/bndbox/ymin'' = Some e_ymin"
    and "el_text e_ymin = Some s_ymin" and "py_int s_ymin = Some ymin"
    and "et_find doc ''object/bndbox/xmax'' = Some e_xmax"
    and "el_text e_xmax = Some s_xmax" and "py_int s_xmax = Some xmax"
    and "et_find doc ''object/bndbox/ymax'' = Some e_ymax"
    and "el_text e_ymax = Some s_ymax" and "py_int s_ymax = Some ymax"
  shows "parse_annotation fs p =
     Inr [(''filename'', case el_text e_filename of None \<Rightarrow> PyNone | Some s \<Rightarrow> PyStr s),
          (''width'', PyInt width), (''height'', PyInt height),
          (''class'', case el_text e_class of None \<Rightarrow> PyNone | Some s \<Rightarrow> PyStr s),
          (''xmin'', PyInt xmin), (''ymin'', PyInt ymin),
          (''xmax'', PyInt xmax), (''ymax'', PyInt ymax)]"
  using assms by (simp add: parse_annotation_def ET_parse_def find_text_def int_of_def)

theorem parse_annotation_fields_witness:
  "parse_annotation example_fs ''Annotation/n02085620-Chihuahua/dog_rgb'' =
     Inr [(''filename'', PyStr ''dog_rgb''), (''width'', PyInt 333), (''height'', PyInt 500),
          (''class'', PyStr ''Chihuahua''), (''xmin'', PyInt 25), (''ymin'', PyInt 10),
          (''xmax'', PyInt 276), (''ymax'', PyInt 498)]"
proof -
  let ?doc = "annotation_doc ''dog_rgb'' [''25'', ''10'', ''276'', ''498'']"
  have xml: "example_fs ''Annotation/n02085620-Chihuahua/dog_rgb'' = Some (File (Xml ?doc))"
    by (simp add: example_fs_def)
  have found:
    "et_find ?doc ''filename'' = Some (Element ''filename'' (Some ''dog_rgb'') [])"
    "et_find ?doc ''size/width'' = Some (Element ''width'' (Some ''333'') [])"
    "et_find ?doc ''size/height'' = Some (Element ''height'' (Some ''500'') [])"
    "et_find ?doc ''object/name'' = Some (Element ''name'' (Some ''Chihuahua'') [])"
    "et_find ?doc ''object/bndbox/xmin'' = Some (Element ''xmin'' (Some ''25'') [])"
    "et_find ?doc ''object/bndbox/ymin'' = Some (Element ''ymin'' (Some ''10'') [])"
    "et_find ?doc ''object/bndbox/xmax'' = Some (Element ''xmax'' (Some ''276'') [])"
    "et_find ?doc ''object/bndbox/ymax'' = Some (Element ''ymax'' (Some ''498'') [])"
    by (simp_all add: et_find_def child_elems_def annotation_doc_def)
  have ints:
    "py_int ''333'' = Some 333" "py_int ''500'' = Some 500" "py_int ''25'' = Some 25"
    "py_int ''10'' = Some 10" "py_int ''276'' = Some 276" "py_int ''498'' = Some 498"
    by (simp_all add: py_int_def strip_def is_space_def parse_unsigned_def is_digit_def digit_val_def)
  have texts:
    "el_text (Element ''width'' (Some ''333'') []) = Some ''333''"
    "el_text (Element ''height'' (Some ''500'') []) = Some ''500''"
    "el_text (Element ''xmin'' (Some ''25'') []) = Some ''25''"
    "el_text (Element ''ymin'' (Some ''10'') []) = Some ''10''"
    "el_text (Element ''xmax'' (Some ''276'') []) = Some ''276''"
    "el_text (Element ''ymax'' (Some ''498'') []) = Some ''498''"
    by simp_all
  show ?thesis
    using parse_annotation_fields [of example_fs "''Annotation/n02085620-Chihuahua/dog_rgb''",
        OF xml found(1) found(2) texts(1) ints(1) found(3) texts(2) ints(2)
        found(4) found(5) texts(3) ints(3) found(6) texts(4) ints(4) found(7) texts(5) ints(5)
        found(8) texts(6) ints(6)]
    by simp
qed

section \<open>The processed image\<close>

lemma listdir_example_root: "listdir example_fs ''Annotation/'' = Inr [''n02085620-Chihuahua'']"
  by (simp add: listdir_def example_fs_def)

lemma listdir_example_folder:
  "listdir example_fs (path_join ''Annotation/'' ''n02085620-Chihuahua'') =
     Inr [''dog_rgb'', ''dog_gray'', ''dog_gone'']"
  by (simp add: listdir_def example_fs_def path_join_def)

lemmas process_eval =
  process_file_def annotation_eval getitem_def str_add_def path_join_def sublist_Cons_right
  Image_open_def bomb_def preprocess_image_def as_int_def bbox_def int64_def wrap64_def
  crop_def c_int_def example_image_def resize_def nearest_def

lemma process_dog_rgb:
  "shapes_of (process_file nearest no_wide example_fs ''all-dogs/''
      ''Annotation/n02085620-Chihuahua/dog_rgb'' ([], [])) = Inr [[128, 128, 3]]"
  by (simp add: shapes_of_def process_eval shape_np_array)

text \<open>
  C1 fails in the code. The code never converts the image mode, so a one-band (grey)
  picture yields a two-dimensional array: the record \<^verbatim>\<open>dog_gray\<close> of the example
  tree, whose picture has the one-band mode \<^verbatim>\<open>L\<close>, makes the loop body append an
  array of shape 128 by 128, not 128 by 128 by 3. The function then breaks on what it
  built: with the three-band picture of \<^verbatim>\<open>dog_rgb\<close> in the same tree, its closing
  \<^verbatim>\<open>np.array(processed_images)\<close> raises a \<^verbatim>\<open>ValueError\<close> on the mixed shapes.
\<close>

theorem gray_image_breaks_stacking:
  "shapes_of (process_file nearest no_wide example_fs ''all-dogs/''
      ''Annotation/n02085620-Chihuahua/dog_gray'' ([], [])) = Inr [[128, 128]] \<and>
   load_and_preprocess_images nearest no_wide example_fs ''all-dogs/'' ''Annotation/'' = Inl ValueError"
proof -
  let ?P = "\<lambda>f acc. process_file nearest no_wide example_fs ''all-dogs/''
      (path_join (path_join ''Annotation/'' ''n02085620-Chihuahua'') f) acc"
  have gray: "shapes_of (process_file nearest no_wide example_fs ''all-dogs/''
      ''Annotation/n02085620-Chihuahua/dog_gray'' ([], [])) = Inr [[128, 128]]"
    by (simp add: shapes_of_def process_eval shape_np_array)
  obtain a where a: "?P ''dog_rgb'' ([], []) = Inr ([a], [example_annotation ''dog_rgb'' 25 10 276 498])"
    and sa: "shape a = [128, 128, 3]"
    by (simp add: process_eval shape_np_array)
  obtain b where b: "?P ''dog_gray'' ([a], [example_annotation ''dog_rgb'' 25 10 276 498]) =
      Inr ([a, b], [example_annotation ''dog_rgb'' 25 10 276 498, example_annotation ''dog_gray'' 0 0 300 200])"
    and sb: "shape b = [128, 128]"
    by (simp add: process_eval shape_np_array)
  have c: "?P ''dog_gone'' ([a, b], [example_annotation ''dog_rgb'' 25 10 276 498, example_annotation ''dog_gray'' 0 0 300 200]) =
      Inr ([a, b], [example_annotation ''dog_rgb'' 25 10 276 498, example_annotation ''dog_gray'' 0 0 300 200])"
    by (simp add: process_eval absent_def ancestors_def is_file_def)
  have stack: "np_stack [a, b] = Inl ValueError"
    by (simp add: np_stack_def sa sb)
  have "load_and_preprocess_images nearest no_wide example_fs ''all-dogs/'' ''Annotation/'' = Inl ValueError"
    by (simp add: load_and_preprocess_images_def listdir_example_root listdir_example_folder a b c stack)
  with gray show ?thesis by simp
qed

section \<open>The crop box\<close>

lemma preprocess_image_box:
  assumes "map_of ann ''xmin'' = Some (PyInt xmin)" and "map_of ann ''ymin'' = Some (PyInt ymin)"
    and "map_of ann ''xmax'' = Some (PyInt xmax)" and "map_of ann ''ymax'' = Some (PyInt ymax)"
  shows "preprocess_image rs wb img ann =
           bindE (bbox wb xmin ymin xmax ymax) (\<lambda>bx.
           bindE (crop img bx) (\<lambda>c.
           bindE (resize rs c (128, 128)) (\<lambda>r. Inr (normalize_image (np_array r)))))"
  using assms by (simp add: preprocess_image_def getitem_def as_int_def)

text \<open>Coordinates that fit 32 bits: the differences fit 64 bits and no addition wraps.\<close>

lemma bbox_in_range:
  assumes "c_int xmin" and "c_int ymin" and "c_int xmax" and "c_int ymax"
    and "w = min (xmax - xmin) (ymax - ymin)"
  shows "bbox wb xmin ymin xmax ymax = Inr (xmin, ymin, xmin + w, ymin + w)"
proof -
  from assms(1-4) have r: "int64 (xmax - xmin)" "int64 (ymax - ymin)" "int64 xmin" "int64 ymin"
    by (simp_all add: c_int_def int64_def)
  from assms have s: "- (2 ^ 63) \<le> xmin + w" "xmin + w < 2 ^ 63" "- (2 ^ 63) \<le> ymin + w" "ymin + w < 2 ^ 63"
    by (auto simp: c_int_def min_def)
  have "wrap64 (xmin + w) = xmin + w" "wrap64 (ymin + w) = ymin + w"
    using s by (simp_all add: wrap64_def)
  with r assms(5) show ?thesis by (simp add: bbox_def Let_def)
qed

text \<open>
  C2, as stated, fails: it speaks of every annotation record, but for a record whose box
  has a negative width or height the side \<open>w\<close> is negative, \<^verbatim>\<open>crop\<close> raises a
  \<^verbatim>\<open>ValueError\<close>, and nothing is cropped or resized. Here the record
  \<^verbatim>\<open>dog_rgb\<close> carries the box (276, 10, 25, 498): the crop box is
  (276, 10, 25, -241), and the loop body and the whole function end in that exception.
\<close>

theorem negative_side_counterexample:
  "parse_annotation inverted_fs ''Annotation/n02085620-Chihuahua/dog_rgb'' =
     Inr (example_annotation ''dog_rgb'' 276 10 25 498) \<and>
   bbox no_wide 276 10 25 498 = Inr (276, 10, 25, - 241) \<and>
   preprocess_image nearest no_wide (example_image Mode_RGB) (example_annotation ''dog_rgb'' 276 10 25 498)
     = Inl ValueError \<and>
   load_and_preprocess_images nearest no_wide inverted_fs ''all-dogs/'' ''Annotation/'' = Inl ValueError"
proof -
  have p: "parse_annotation inverted_fs ''Annotation/n02085620-Chihuahua/dog_rgb'' =
     Inr (example_annotation ''dog_rgb'' 276 10 25 498)"
    by (simp add: annotation_eval inverted_fs_def)
  have b: "bbox no_wide 276 10 25 498 = Inr (276, 10, 25, - 241)"
    by (simp add: bbox_def int64_def wrap64_def)
  have q: "preprocess_image nearest no_wide (example_image Mode_RGB) (example_annotation ''dog_rgb'' 276 10 25 498)
     = Inl ValueError"
    by (simp add: preprocess_image_def getitem_def as_int_def example_annotation_def b crop_def)
  have l1: "listdir inverted_fs ''Annotation/'' = Inr [''n02085620-Chihuahua'']"
    by (simp add: listdir_def inverted_fs_def example_fs_def)
  have l2: "listdir inverted_fs (path_join ''Annotation/'' ''n02085620-Chihuahua'') =
     Inr [''dog_rgb'', ''dog_gray'', ''dog_gone'']"
    by (simp add: listdir_def inverted_fs_def example_fs_def path_join_def)
  have j: "path_join (path_join ''Annotation/'' ''n02085620-Chihuahua'') ''dog_rgb'' =
     ''Annotation/n02085620-Chihuahua/dog_rgb''"
    by (simp add: path_join_def)
  have o: "Image_open inverted_fs (path_join ''all-dogs/'' (''dog_rgb'' @ ''.jpg'')) = Inr (example_image Mode_RGB)"
    by (simp add: Image_open_def inverted_fs_def example_fs_def path_join_def bomb_def example_image_def)
  have f: "process_file nearest no_wide inverted_fs ''all-dogs/'' ''Annotation/n02085620-Chihuahua/dog_rgb'' ([], [])
     = Inl ValueError"
    using process_file_opened [OF p filename_example_annotation not_sublist_dog_rgb o, of nearest no_wide "([], [])"] q
    by simp
  have "load_and_preprocess_images nearest no_wide inverted_fs ''all-dogs/'' ''Annotation/'' = Inl ValueError"
    by (simp add: load_and_preprocess_images_def l1 l2 j f)
  with p b q show ?thesis by simp
qed

text \<open>
  C2, amended. For every annotation record whose four box coordinates fit 32 bits, with
  \<open>w\<close> the minimum of the box width \<open>xmax - xmin\<close> and the box height \<open>ymax - ymin\<close>,
  the crop box is \<open>(xmin, ymin, xmin + w, ymin + w)\<close>. When \<open>w\<close> is negative
  \<^verbatim>\<open>crop\<close> raises a \<^verbatim>\<open>ValueError\<close> and the record's processing ends in it. When
  \<open>w\<close> is not negative and at most 13377 (the square stays within the pixel limit) and
  the image file is complete, the crop succeeds: it is the square of side \<open>w\<close> whose
  top-left corner is (xmin, ymin), each of its pixels being the source's pixel at the
  same offset from that corner; the crop is then handed to \<^verbatim>\<open>resize\<close> with the size
  (128, 128), and when that returns, its result is 128 wide and 128 high and is the image
  whose normalised array the processing returns.
\<close>

theorem crop_box_square:
  assumes "map_of ann ''xmin'' = Some (PyInt xmin)" and "map_of ann ''ymin'' = Some (PyInt ymin)"
    and "map_of ann ''xmax'' = Some (PyInt xmax)" and "map_of ann ''ymax'' = Some (PyInt ymax)"
    and "c_int xmin" and "c_int ymin" and "c_int xmax" and "c_int ymax"
    and "w = min (xmax - xmin) (ymax - ymin)"
  shows "bbox wb xmin ymin xmax ymax = Inr (xmin, ymin, xmin + w, ymin + w) \<and>
         (w < 0 \<longrightarrow> preprocess_image rs wb img ann = Inl ValueError) \<and>
         (0 \<le> w \<and> w \<le> 13377 \<and> \<not> im_truncated img \<longrightarrow>
            (\<exists>c. crop img (xmin, ymin, xmin + w, ymin + w) = Inr c \<and>
                 im_width c = nat w \<and> im_height c = nat w \<and>
                 (\<forall>x y b. 0 \<le> xmin + int x \<and> xmin + int x < int (im_width img) \<and>
                          0 \<le> ymin + int y \<and> ymin + int y < int (im_height img) \<longrightarrow>
                          im_data c x y b = im_data img (nat (xmin + int x)) (nat (ymin + int y)) b) \<and>
                 preprocess_image rs wb img ann =
                   bindE (resize rs c (128, 128)) (\<lambda>r. Inr (normalize_image (np_array r))) \<and>
                 (\<forall>r. resize rs c (128, 128) = Inr r \<longrightarrow>
                    im_width r = 128 \<and> im_height r = 128 \<and>
                    preprocess_image rs wb img ann = Inr (normalize_image (np_array r)))))"
proof -
  have box: "bbox wb xmin ymin xmax ymax = Inr (xmin, ymin, xmin + w, ymin + w)"
    by (rule bbox_in_range [OF assms(5-9)])
  have eq: "preprocess_image rs wb img ann =
           bindE (crop img (xmin, ymin, xmin + w, ymin + w)) (\<lambda>c.
           bindE (resize rs c (128, 128)) (\<lambda>r. Inr (normalize_image (np_array r))))"
    using preprocess_image_box [OF assms(1-4)] box by simp
  have neg: "preprocess_image rs wb img ann = Inl ValueError" if "w < 0"
    using that eq by (simp add: crop_def)
  have pos: "\<exists>c. crop img (xmin, ymin, xmin + w, ymin + w) = Inr c \<and>
                 im_width c = nat w \<and> im_height c = nat w \<and>
                 (\<forall>x y b. 0 \<le> xmin + int x \<and> xmin + int x < int (im_width img) \<and>
                          0 \<le> ymin + int y \<and> ymin + int y < int (im_height img) \<longrightarrow>
                          im_data c x y b = im_data img (nat (xmin + int x)) (nat (ymin + int y)) b) \<and>
                 preprocess_image rs wb img ann =
                   bindE (resize rs c (128, 128)) (\<lambda>r. Inr (normalize_image (np_array r))) \<and>
                 (\<forall>r. resize rs c (128, 128) = Inr r \<longrightarrow>
                    im_width r = 128 \<and> im_height r = 128 \<and>
                    preprocess_image rs wb img ann = Inr (normalize_image (np_array r)))"
    if w: "0 \<le> w" "w \<le> 13377" and t: "\<not> im_truncated img"
  proof -
    have "max 1 w * max 1 w \<le> 13377 * 13377"
      using w by (intro mult_mono) simp_all
    then have nb: "\<not> bomb (xmin + w - xmin) (ymin + w - ymin)"
      by (simp add: bomb_def)
    from assms(5-9) w have ci: "c_int (xmin + w)" "c_int (ymin + w)"
      by (auto simp: c_int_def min_def)
    from w t nb ci assms(5,6)
    obtain c where c: "crop img (xmin, ymin, xmin + w, ymin + w) = Inr c"
      by (simp add: crop_def)
    from c w t nb ci assms(5,6) have sz: "im_width c = nat w" "im_height c = nat w"
      by (auto simp: crop_def)
    from c w t nb ci assms(5,6)
    have px: "\<forall>x y b. 0 \<le> xmin + int x \<and> xmin + int x < int (im_width img) \<and>
                          0 \<le> ymin + int y \<and> ymin + int y < int (im_height img) \<longrightarrow>
                          im_data c x y b = im_data img (nat (xmin + int x)) (nat (ymin + int y)) b"
      by (auto simp: crop_def Let_def)
    have e2: "preprocess_image rs wb img ann =
                   bindE (resize rs c (128, 128)) (\<lambda>r. Inr (normalize_image (np_array r)))"
      using eq c by simp
    have rz: "\<forall>r. resize rs c (128, 128) = Inr r \<longrightarrow>
                    im_width r = 128 \<and> im_height r = 128 \<and>
                    preprocess_image rs wb img ann = Inr (normalize_image (np_array r))"
      using e2 by (auto dest: resize_Inr)
    from c sz px e2 rz show ?thesis by blast
  qed
  from box neg pos show ?thesis by blast
qed

theorem crop_box_square_witness:
  "min (276 - 25) (498 - 10) = (251 :: int) \<and>
   bbox no_wide 25 10 276 498 = Inr (25, 10, 276, 261) \<and>
   (\<exists>c r. crop (example_image Mode_RGB) (25, 10, 276, 261) = Inr c \<and>
        im_width c = 251 \<and> im_height c = 251 \<and>
        im_data c 0 0 0 = im_data (example_image Mode_RGB) 25 10 0 \<and>
        resize nearest c (128, 128) = Inr r \<and> im_width r = 128 \<and> im_height r = 128 \<and>
        preprocess_image nearest no_wide (example_image Mode_RGB) (example_annotation ''dog_rgb'' 25 10 276 498)
          = Inr (normalize_image (np_array r))) \<and>
   min (25 - 276) (498 - 10) = (- 251 :: int) \<and>
   preprocess_image nearest no_wide (example_image Mode_RGB) (example_annotation ''dog_rgb'' 276 10 25 498)
     = Inl ValueError"
proof -
  let ?ann = "example_annotation ''dog_rgb'' 25 10 276 498"
  let ?inv = "example_annotation ''dog_rgb'' 276 10 25 498"
  have f: "map_of ?ann ''xmin'' = Some (PyInt 25)" "map_of ?ann ''ymin'' = Some (PyInt 10)"
    "map_of ?ann ''xmax'' = Some (PyInt 276)" "map_of ?ann ''ymax'' = Some (PyInt 498)"
    by (simp_all add: example_annotation_def)
  have g: "map_of ?inv ''xmin'' = Some (PyInt 276)" "map_of ?inv ''ymin'' = Some (PyInt 10)"
    "map_of ?inv ''xmax'' = Some (PyInt 25)" "map_of ?inv ''ymax'' = Some (PyInt 498)"
    by (simp_all add: example_annotation_def)
  have ci: "c_int 25" "c_int 10" "c_int 276" "c_int 498"
    by (simp_all add: c_int_def)
  have w: "(251 :: int) = min (276 - 25) (498 - 10)" by simp
  have v: "(- 251 :: int) = min (25 - 276) (498 - 10)" by simp
  have t: "\<not> im_truncated (example_image Mode_RGB)" by (simp add: example_image_def)
  note a = crop_box_square [OF f ci w, of no_wide nearest "example_image Mode_RGB"]
  note b = crop_box_square [OF g ci(3,2,1,4) v, of no_wide nearest "example_image Mode_RGB"]
  from a t obtain c where c: "crop (example_image Mode_RGB) (25, 10, 276, 261) = Inr c"
    "im_width c = 251" "im_height c = 251"
    "\<forall>x y b. 0 \<le> 25 + int x \<and> 25 + int x < int (im_width (example_image Mode_RGB)) \<and>
             0 \<le> 10 + int y \<and> 10 + int y < int (im_height (example_image Mode_RGB)) \<longrightarrow>
             im_data c x y b = im_data (example_image Mode_RGB) (nat (25 + int x)) (nat (10 + int y)) b"
    "\<forall>r. resize nearest c (128, 128) = Inr r \<longrightarrow>
        im_width r = 128 \<and> im_height r = 128 \<and>
        preprocess_image nearest no_wide (example_image Mode_RGB) ?ann = Inr (normalize_image (np_array r))"
    by auto
  from c(4) have d: "im_data c 0 0 0 = im_data (example_image Mode_RGB) 25 10 0"
    by (simp add: example_image_def)
  from c(1) obtain r where r: "resize nearest c (128, 128) = Inr r"
    by (auto simp: resize_def nearest_def crop_def split: if_splits)
  from c(5) r have e: "im_width r = 128" "im_height r = 128"
    "preprocess_image nearest no_wide (example_image Mode_RGB) ?ann = Inr (normalize_image (np_array r))"
    by simp_all
  from a have bx: "bbox no_wide 25 10 276 498 = Inr (25, 10, 276, 261)" by simp
  from b have n: "preprocess_image nearest no_wide (example_image Mode_RGB) ?inv = Inl ValueError" by simp
  from bx c(1-3) d r e n show ?thesis by auto
qed

section \<open>Missing image files\<close>












section \<open>Malformed annotation files\<close>

lemma find_text_Inr: "find_text doc path = Inr v \<Longrightarrow> et_find doc path \<noteq> None"
  by (auto simp: find_text_def split: option.splits)

lemma parse_annotation_Inr_found:
  assumes "parse_annotation fs p = Inr d"
  shows "\<exists>doc. fs p = Some (File (Xml doc)) \<and>
           list_all (\<lambda>path. et_find doc path \<noteq> None)
             [''filename'', ''size/width'', ''size/height'', ''object/name'',
              ''object/bndbox/xmin'', ''object/bndbox/ymin'', ''object/bndbox/xmax'',
              ''object/bndbox/ymax'']"
proof -
  from assms obtain doc where doc: "ET_parse fs p = Inr doc"
    and f: "\<exists>v. find_text doc ''filename'' = Inr v" "\<exists>v. find_text doc ''size/width'' = Inr v"
      "\<exists>v. find_text doc ''size/height'' = Inr v" "\<exists>v. find_text doc ''object/name'' = Inr v"
      "\<exists>v. find_text doc ''object/bndbox/xmin'' = Inr v" "\<exists>v. find_text doc ''object/bndbox/ymin'' = Inr v"
      "\<exists>v. find_text doc ''object/bndbox/xmax'' = Inr v" "\<exists>v. find_text doc ''object/bndbox/ymax'' = Inr v"
    unfolding parse_annotation_def bindE_eq_Inr by blast
  from doc have "fs p = Some (File (Xml doc))"
    by (auto simp: ET_parse_def split: option.splits node.splits content.splits)
  with f show ?thesis
    by (auto dest!: find_text_Inr)
qed

lemma process_file_parse_error:
  "parse_annotation fs ap = Inl e \<Longrightarrow> process_file rs wb fs images_path ap acc = Inl e"
  by (simp add: process_file_def)

lemma files_loop_raises:
  assumes "f \<in> set files" and "parse_annotation fs (path_join folder_path f) = Inl e"
  shows "\<exists>e'. files_loop rs wb fs images_path folder_path files acc = Inl e'"
  using assms
proof (induction files arbitrary: acc)
  case Nil
  then show ?case by simp
next
  case (Cons a files)
  show ?case
  proof (cases "process_file rs wb fs images_path (path_join folder_path a) acc")
    case (Inl e1)
    then show ?thesis by simp
  next
    case (Inr acc')
    with Cons.prems have "a \<noteq> f"
      using process_file_parse_error [of fs "path_join folder_path f" e rs wb images_path acc] by auto
    with Cons.prems have "f \<in> set files" by simp
    from Cons.IH [OF this Cons.prems(2)] Inr show ?thesis by simp
  qed
qed

lemma folders_loop_raises:
  assumes "folder \<in> set folders"
    and "listdir fs (path_join annotations_path folder) = Inr files"
    and "f \<in> set files"
    and "parse_annotation fs (path_join (path_join annotations_path folder) f) = Inl e"
  shows "\<exists>e'. folders_loop rs wb fs images_path annotations_path folders acc = Inl e'"
  using assms
proof (induction folders arbitrary: acc)
  case Nil
  then show ?case by simp
next
  case (Cons a folders)
  show ?case
  proof (cases "a = folder")
    case True
    from files_loop_raises [OF Cons.prems(3,4), of rs wb images_path acc]
    obtain e' where "files_loop rs wb fs images_path (path_join annotations_path folder) files acc = Inl e'"
      by blast
    with True Cons.prems(2) show ?thesis by simp
  next
    case False
    with Cons.prems have mem: "folder \<in> set folders" by simp
    show ?thesis
    proof (cases "listdir fs (path_join annotations_path a)")
      case (Inl e1)
      then show ?thesis by simp
    next
      case (Inr fl)
      show ?thesis
      proof (cases "files_loop rs wb fs images_path (path_join annotations_path a) fl acc")
        case (Inl e2)
        with Inr show ?thesis by simp
      next
        case inner: (Inr acc')
        from Cons.IH [OF mem Cons.prems(2,3,4), of acc'] Inr inner show ?thesis by simp
      qed
    qed
  qed
qed

lemma collect_files_raises:
  assumes "f \<in> set files" and "parse_annotation fs (path_join folder_path f) = Inl e"
  shows "\<exists>e'. collect_files fs folder_path files anns = Inl e'"
  using assms
proof (induction files arbitrary: anns)
  case Nil
  then show ?case by simp
next
  case (Cons a files)
  show ?case
  proof (cases "parse_annotation fs (path_join folder_path a)")
    case (Inl e1)
    then show ?thesis by simp
  next
    case (Inr d)
    with Cons.prems have "f \<in> set files" by auto
    from Cons.IH [OF this Cons.prems(2)] Inr show ?thesis by simp
  qed
qed

lemma collect_folders_raises:
  assumes "folder \<in> set folders"
    and "listdir fs (path_join annotations_path folder) = Inr files"
    and "f \<in> set files"
    and "parse_annotation fs (path_join (path_join annotations_path folder) f) = Inl e"
  shows "\<exists>e'. collect_folders fs annotations_path folders anns = Inl e'"
  using assms
proof (induction folders arbitrary: anns)
  case Nil
  then show ?case by simp
next
  case (Cons a folders)
  show ?case
  proof (cases "a = folder")
    case True
    from collect_files_raises [OF Cons.prems(3,4), of anns]
    obtain e' where "collect_files fs (path_join annotations_path folder) files anns = Inl e'"
      by blast
    with True Cons.prems(2) show ?thesis by simp
  next
    case False
    with Cons.prems have mem: "folder \<in> set folders" by simp
    show ?thesis
    proof (cases "listdir fs (path_join annotations_path a)")
      case (Inl e1)
      then show ?thesis by simp
    next
      case (Inr fl)
      show ?thesis
      proof (cases "collect_files fs (path_join annotations_path a) fl anns")
        case (Inl e2)
        with Inr show ?thesis by simp
      next
        case inner: (Inr anns')
        from Cons.IH [OF mem Cons.prems(2,3,4), of anns'] Inr inner show ?thesis by simp
      qed
    qed
  qed
qed

text \<open>
  C4. For an annotation file that is not well-formed XML, or that lacks one of the eight
  required elements, \<^verbatim>\<open>parse_annotation\<close> raises; no record is produced; the
  exception is the result of the data-frame loop and of the preprocessing loop as soon as
  they reach the file, and both functions end in an exception whenever the file is among
  those they list.
\<close>

theorem malformed_annotation_propagates:
  assumes "fs (path_join (path_join annotations_path folder) f) = Some (File c)"
    and "\<forall>doc. c = Xml doc \<longrightarrow>
           (\<exists>path \<in> set [''filename'', ''size/width'', ''size/height'', ''object/name'',
              ''object/bndbox/xmin'', ''object/bndbox/ymin'', ''object/bndbox/xmax'',
              ''object/bndbox/ymax'']. et_find doc path = None)"
    and "listdir fs annotations_path = Inr folders" and "folder \<in> set folders"
    and "listdir fs (path_join annotations_path folder) = Inr files" and "f \<in> set files"
  shows "\<exists>e. parse_annotation fs (path_join (path_join annotations_path folder) f) = Inl e \<and>
             collect_files fs (path_join annotations_path folder) (f # rest) anns = Inl e \<and>
             files_loop rs wb fs images_path (path_join annotations_path folder) (f # rest) acc = Inl e \<and>
             (\<exists>e'. load_annotations fs annotations_path = Inl e') \<and>
             (\<exists>e'. load_and_preprocess_images rs wb fs images_path annotations_path = Inl e')"
proof -
  let ?p = "path_join (path_join annotations_path folder) f"
  have "\<not> (\<exists>d. parse_annotation fs ?p = Inr d)"
  proof
    assume "\<exists>d. parse_annotation fs ?p = Inr d"
    then obtain d where "parse_annotation fs ?p = Inr d" by blast
    from parse_annotation_Inr_found [OF this] assms(1,2) show False
      by auto
  qed
  then obtain e where e: "parse_annotation fs ?p = Inl e"
    by (cases "parse_annotation fs ?p") auto
  have 1: "collect_files fs (path_join annotations_path folder) (f # rest) anns = Inl e"
    using e by simp
  have 2: "files_loop rs wb fs images_path (path_join annotations_path folder) (f # rest) acc = Inl e"
    using e by (simp add: process_file_parse_error)
  have 3: "\<exists>e'. load_annotations fs annotations_path = Inl e'"
    using collect_folders_raises [OF assms(4,5,6) e, of "[]"] assms(3)
    by (simp add: load_annotations_def)
  obtain e2 where "folders_loop rs wb fs images_path annotations_path folders ([], []) = Inl e2"
    using folders_loop_raises [OF assms(4,5,6) e, of rs wb images_path "([], [])"] by blast
  then have 4: "\<exists>e'. load_and_preprocess_images rs wb fs images_path annotations_path = Inl e'"
    using assms(3) by (simp add: load_and_preprocess_images_def)
  from e 1 2 3 4 show ?thesis by blast
qed

theorem malformed_annotation_propagates_witness:
  "parse_annotation malformed_fs ''Annotation/n02085620-Chihuahua/dog_nobox'' = Inl AttributeError \<and>
   collect_files malformed_fs ''Annotation/n02085620-Chihuahua'' [''dog_nobox'', ''dog_gray''] [] = Inl AttributeError \<and>
   files_loop nearest no_wide malformed_fs ''all-dogs/'' ''Annotation/n02085620-Chihuahua'' [''dog_nobox'', ''dog_gray''] ([], [])
     = Inl AttributeError \<and>
   (\<exists>e'. load_annotations malformed_fs ''Annotation/'' = Inl e') \<and>
   (\<exists>e'. load_and_preprocess_images nearest no_wide malformed_fs ''all-dogs/'' ''Annotation/'' = Inl e')"
proof -
  let ?doc = "Element ''annotation'' None
           [Element ''filename'' (Some ''dog_nobox'') [],
            Element ''size'' None
              [Element ''width'' (Some ''333'') [], Element ''height'' (Some ''500'') []],
            Element ''object'' None [Element ''name'' (Some ''Chihuahua'') []]]"
  have j1: "path_join ''Annotation/'' ''n02085620-Chihuahua'' = ''Annotation/n02085620-Chihuahua''"
    by (simp add: path_join_def)
  have j2: "path_join ''Annotation/n02085620-Chihuahua'' ''dog_nobox'' = ''Annotation/n02085620-Chihuahua/dog_nobox''"
    by (simp add: path_join_def)
  have c: "malformed_fs ''Annotation/n02085620-Chihuahua/dog_nobox'' = Some (File (Xml ?doc))"
    by (simp add: malformed_fs_def)
  have missing: "\<forall>doc. Xml ?doc = Xml doc \<longrightarrow>
           (\<exists>path \<in> set [''filename'', ''size/width'', ''size/height'', ''object/name'',
              ''object/bndbox/xmin'', ''object/bndbox/ymin'', ''object/bndbox/xmax'',
              ''object/bndbox/ymax'']. et_find doc path = None)"
    by (simp add: et_find_def child_elems_def)
  have l1: "listdir malformed_fs ''Annotation/'' = Inr [''n02085620-Chihuahua'']"
    by (simp add: listdir_def malformed_fs_def example_fs_def)
  have l2: "listdir malformed_fs ''Annotation/n02085620-Chihuahua'' = Inr [''dog_rgb'', ''dog_nobox'', ''dog_gray'']"
    by (simp add: listdir_def malformed_fs_def)
  have m1: "''n02085620-Chihuahua'' \<in> set [''n02085620-Chihuahua'']" by simp
  have m2: "''dog_nobox'' \<in> set [''dog_rgb'', ''dog_nobox'', ''dog_gray'']" by simp
  have p: "parse_annotation malformed_fs ''Annotation/n02085620-Chihuahua/dog_nobox'' = Inl AttributeError"
    by (simp add: annotation_eval malformed_fs_def)
  note t = malformed_annotation_propagates [of malformed_fs "''Annotation/''" "''n02085620-Chihuahua''" "''dog_nobox''",
      unfolded j1 j2, OF c missing l1 m1 l2 m2, of "[''dog_gray'']" "[]" nearest no_wide "''all-dogs/''" "([], [])"]
  from t p show ?thesis by auto
qed

section \<open>Determinism of preprocessing\<close>






section \<open>Runs of the training loop\<close>

subsection \<open>The log of a run that returns\<close>

lemma bindS_Inr:
  "bindS m f s = (Inr v, s') \<longleftrightarrow> (\<exists>x s1. m s = (Inr x, s1) \<and> f x s1 = (Inr v, s'))"
  by (auto simp: bindS_def split: prod.splits sum.splits)

lemma call_Inr:
  "call f ev s = (Inr r, s') \<longleftrightarrow>
     (\<exists>w'. f (world s) = Inr (r, w') \<and> s' = \<lparr> world = w', calls = calls s @ [ev r] \<rparr>)"
  by (auto simp: call_def split: sum.splits prod.splits)

lemma liftE_Inr: "liftE r s = (Inr v, s') \<longleftrightarrow> r = Inr v \<and> s' = s"
  by (auto simp: liftE_def)

lemma returnS_Inr: "returnS v s = (Inr v', s') \<longleftrightarrow> v' = v \<and> s' = s"
  by (auto simp: returnS_def)

lemmas comp_Inr = bindS_Inr call_Inr liftE_Inr returnS_Inr

lemma py_mod_Inr: "py_mod a b = Inr r \<longleftrightarrow> b \<noteq> 0 \<and> r = a mod b"
  by (auto simp: py_mod_def)

lemma cols_loop_Inr:
  "cols_loop lib g i js c s = (Inr c', s') \<Longrightarrow>
     \<exists>grid. calls s' = calls s @ grid \<and> length grid = 2 * length js \<and> list_all is_grid_call grid"
proof (induction js arbitrary: c s)
  case Nil
  then show ?case by (simp add: comp_Inr)
next
  case (Cons j js)
  from Cons.prems obtain im w1 w2 where
    rest: "cols_loop lib g i js (c + 1) \<lparr> world = w2, calls = (calls s @ [Plot (Imshow i j im)]) @ [Plot (Axis_off i j)] \<rparr> = (Inr c', s')"
    by (auto simp: comp_Inr)
  from Cons.IH [OF rest] obtain grid where
    "calls s' = (calls s @ [Plot (Imshow i j im)]) @ [Plot (Axis_off i j)] @ grid"
    "length grid = 2 * length js" "list_all is_grid_call grid"
    by auto
  then show ?case
    by (intro exI [of _ "Plot (Imshow i j im) # Plot (Axis_off i j) # grid"])
       simp
qed

lemma rows_loop_Inr:
  "rows_loop lib g rows c s = (Inr c', s') \<Longrightarrow>
     \<exists>grid. calls s' = calls s @ grid \<and> length grid = 10 * length rows \<and> list_all is_grid_call grid"
proof (induction rows arbitrary: c s)
  case Nil
  then show ?case by (simp add: comp_Inr)
next
  case (Cons i rows)
  from Cons.prems obtain c1 s1 where
    cols: "cols_loop lib g i [0..<5] c s = (Inr c1, s1)" and
    rest: "rows_loop lib g rows c1 s1 = (Inr c', s')"
    by (auto simp: comp_Inr)
  from cols_loop_Inr [OF cols] obtain g1 where
    g1: "calls s1 = calls s @ g1" "length g1 = 10" "list_all is_grid_call g1"
    by auto
  from Cons.IH [OF rest] obtain g2 where
    g2: "calls s' = calls s1 @ g2" "length g2 = 10 * length rows" "list_all is_grid_call g2"
    by auto
  from g1 g2 show ?case
    by (intro exI [of _ "g1 @ g2"]) simp
qed

lemma save_images_Inr:
  assumes "save_images lib epoch folder s = (Inr u, s')"
  shows "\<exists>evs. calls s' = calls s @ evs \<and> save_events epoch folder evs"
proof -
  from assms obtain noise gen_imgs w1 w2 w3 c' s4 w5 w6 w7 where
    loop: "rows_loop lib (rescale gen_imgs) [0..<5] 0
             \<lparr> world = w3, calls = ((calls s @ [Normal 25 100 noise]) @ [Predict noise gen_imgs]) @ [Plot (Subplots 5 5)] \<rparr>
           = (Inr c', s4)"
    and s': "s' = \<lparr> world = w7, calls = ((calls s4 @ [Plot Show]) @ [Plot (Savefig (image_file_name folder epoch))]) @ [Plot Close] \<rparr>"
    by (auto simp: save_images_def comp_Inr)
  from rows_loop_Inr [OF loop] obtain grid where
    grid: "calls s4 = (((calls s @ [Normal 25 100 noise]) @ [Predict noise gen_imgs]) @ [Plot (Subplots 5 5)]) @ grid"
      "length grid = 50" "list_all is_grid_call grid"
    by auto
  show ?thesis
    unfolding save_events_def
    by (intro exI [of _ "[Normal 25 100 noise, Predict noise gen_imgs, Plot (Subplots 5 5)] @ grid @
              [Plot Show, Plot (Savefig (image_file_name folder epoch)), Plot Close]"])
       (use grid s' in auto)
qed

lemma train_step_Inr:
  assumes "train_step lib processed_images batch_size save_interval valid fake epoch s = (Inr u, s')"
  shows "\<exists>evs. calls s' = calls s @ evs \<and>
               iteration_events lib processed_images batch_size save_interval valid fake epoch evs"
proof -
  from assms obtain n idx real_imgs noise gen_imgs d_real d_fake noise2 g_loss w1 w2 w6 w7 w8 where
    n: "shape0 processed_images = Inr n" and
    real: "take_rows processed_images idx = Inr real_imgs" and
    lib1: "np_random_randint lib 0 n batch_size (world s) = Inr (idx, w1)" and
    lib2: "np_random_normal lib batch_size 100 w1 = Inr (noise, w2)" and
    lib3: "np_random_normal lib batch_size 100 w6 = Inr (noise2, w7)" and
    si: "save_interval \<noteq> 0" and
    tail: "(if epoch mod save_interval = 0 \<or> epoch = 0 then
         bindS (call (py_print lib epoch (fst (half_np_add d_real d_fake)) (100 * snd (half_np_add d_real d_fake)) g_loss)
                  (\<lambda>_. Print epoch (fst (half_np_add d_real d_fake)) (100 * snd (half_np_add d_real d_fake)) g_loss)) (\<lambda>_.
           save_images lib epoch ''images/'')
       else returnS ())
       \<lparr> world = w8,
         calls = calls s @ [Randint 0 n batch_size idx, Normal batch_size 100 noise, Predict noise gen_imgs,
               Train_D real_imgs valid d_real, Train_D gen_imgs fake d_fake,
               Normal batch_size 100 noise2, Train_G noise2 valid g_loss] \<rparr> = (Inr u, s')"
    unfolding train_step_def
    by (auto simp: comp_Inr py_mod_Inr Let_def)
  have drawn: "\<exists>w w'. np_random_randint lib 0 n batch_size w = Inr (idx, w')"
      "\<exists>w w'. np_random_normal lib batch_size 100 w = Inr (noise, w')"
      "\<exists>w w'. np_random_normal lib batch_size 100 w = Inr (noise2, w')"
    using lib1 lib2 lib3 by blast+
  let ?train = "[Randint 0 n batch_size idx, Normal batch_size 100 noise, Predict noise gen_imgs,
               Train_D real_imgs valid d_real, Train_D gen_imgs fake d_fake,
               Normal batch_size 100 noise2, Train_G noise2 valid g_loss]"
  have zero: "epoch = 0 \<Longrightarrow> epoch mod save_interval = 0" by simp
  show ?thesis
  proof (cases "epoch mod save_interval = 0")
    case True
    with tail obtain w9 where
      save: "save_images lib epoch ''images/''
          \<lparr> world = w9, calls = (calls s @ ?train) @
              [Print epoch (fst (half_np_add d_real d_fake)) (100 * snd (half_np_add d_real d_fake)) g_loss] \<rparr>
          = (Inr u, s')"
      by (auto simp: comp_Inr)
    from save_images_Inr [OF save] obtain grid where
      "calls s' = ((calls s @ ?train) @
              [Print epoch (fst (half_np_add d_real d_fake)) (100 * snd (half_np_add d_real d_fake)) g_loss]) @ grid"
      and "save_events epoch ''images/'' grid"
      by auto
    with n real drawn True show ?thesis
      unfolding iteration_events_def
      by (intro exI [of _ "?train @ Print epoch (fst (half_np_add d_real d_fake)) (100 * snd (half_np_add d_real d_fake)) g_loss # grid"])
         auto
  next
    case False
    with zero have "epoch \<noteq> 0" by blast
    with False tail have "calls s' = calls s @ ?train"
      by (auto simp: comp_Inr)
    with n real drawn False show ?thesis
      unfolding iteration_events_def
      by (intro exI [of _ ?train]) auto
  qed
qed

lemma train_loop_Inr:
  assumes "train_loop lib processed_images batch_size save_interval valid fake epochs s = (Inr u, s')"
  shows "\<exists>segs. calls s' = calls s @ concat segs \<and>
           list_all2 (iteration_events lib processed_images batch_size save_interval valid fake) epochs segs"
  using assms
proof (induction epochs arbitrary: s)
  case Nil
  then show ?case by (simp add: comp_Inr)
next
  case (Cons epoch rest)
  from Cons.prems obtain u1 s1 where
    step: "train_step lib processed_images batch_size save_interval valid fake epoch s = (Inr u1, s1)" and
    loop: "train_loop lib processed_images batch_size save_interval valid fake rest s1 = (Inr u, s')"
    by (auto simp: comp_Inr)
  from train_step_Inr [OF step] obtain evs where
    evs: "calls s1 = calls s @ evs"
      "iteration_events lib processed_images batch_size save_interval valid fake epoch evs"
    by blast
  from Cons.IH [OF loop] obtain segs where
    segs: "calls s' = calls s1 @ concat segs"
      "list_all2 (iteration_events lib processed_images batch_size save_interval valid fake) rest segs"
    by blast
  from evs segs show ?case
    by (intro exI [of _ "evs # segs"]) simp
qed


subsection \<open>A library that keeps its contract lets the run return\<close>

lemma example_library_contract: "library_contract example_library"
  by (auto simp: library_contract_def example_library_def mk_array_def list_all_length)

lemma get_row_ok: "shape g = n # r \<Longrightarrow> c < n \<Longrightarrow> \<exists>im. get_row g (int c) = Inr im"
  by (simp add: get_row_def)

lemma randint_ok:
  "library_contract lib \<Longrightarrow> low < high \<Longrightarrow> 0 \<le> n \<Longrightarrow>
     \<exists>idx w'. np_random_randint lib low high n w = Inr (idx, w') \<and> length idx = nat n \<and>
               list_all (\<lambda>k. low \<le> k \<and> k < high) idx"
  by (simp add: library_contract_def)

lemma normal_ok:
  "library_contract lib \<Longrightarrow> 0 \<le> m \<Longrightarrow> 0 \<le> n \<Longrightarrow>
     \<exists>a w'. np_random_normal lib m n w = Inr (a, w') \<and> shape a = [nat m, nat n]"
  by (simp add: library_contract_def)

lemma predict_ok:
  "library_contract lib \<Longrightarrow>
     \<exists>y w'. generator_predict lib x w = Inr (y, w') \<and>
        (\<forall>n r. shape x = n # r \<longrightarrow> (\<exists>r'. shape y = n # r'))"
  by (simp add: library_contract_def)

lemma train_D_ok:
  "library_contract lib \<Longrightarrow> \<exists>l w'. discriminator_train_on_batch lib x y w = Inr (l, w')"
  by (simp add: library_contract_def)

lemma train_G_ok:
  "library_contract lib \<Longrightarrow> \<exists>l w'. gan_train_on_batch lib x y w = Inr (l, w')"
  by (simp add: library_contract_def)

lemma print_ok:
  "library_contract lib \<Longrightarrow> \<exists>w'. py_print lib e a b c w = Inr ((), w')"
  by (simp add: library_contract_def)

lemma plt_ok: "library_contract lib \<Longrightarrow> \<exists>w'. plt lib c w = Inr ((), w')"
  by (simp add: library_contract_def)

lemma call_randint:
  assumes "library_contract lib" and "low < high" and "0 \<le> n"
  shows "\<exists>idx s'. call (np_random_randint lib low high n) (Randint low high n) s = (Inr idx, s') \<and>
           length idx = nat n \<and> list_all (\<lambda>k. low \<le> k \<and> k < high) idx"
  using randint_ok [OF assms, of "world s"] by (auto simp: call_def)

lemma call_normal:
  assumes "library_contract lib" and "0 \<le> m" and "0 \<le> n"
  shows "\<exists>a s'. call (np_random_normal lib m n) (Normal m n) s = (Inr a, s') \<and> shape a = [nat m, nat n]"
  using normal_ok [OF assms, of "world s"] by (auto simp: call_def)

lemma call_predict:
  assumes "library_contract lib"
  shows "\<exists>y s'. call (generator_predict lib x) (Predict x) s = (Inr y, s') \<and>
           (\<forall>n r. shape x = n # r \<longrightarrow> (\<exists>r'. shape y = n # r'))"
  using predict_ok [OF assms, of x "world s"] by (auto simp: call_def)

lemma call_train_D:
  assumes "library_contract lib"
  shows "\<exists>l s'. call (discriminator_train_on_batch lib x y) (Train_D x y) s = (Inr l, s')"
  using train_D_ok [OF assms, of x y "world s"] by (auto simp: call_def)

lemma call_train_G:
  assumes "library_contract lib"
  shows "\<exists>l s'. call (gan_train_on_batch lib x y) (Train_G x y) s = (Inr l, s')"
  using train_G_ok [OF assms, of x y "world s"] by (auto simp: call_def)

lemma call_print:
  assumes "library_contract lib"
  shows "\<exists>s'. call (py_print lib e a b c) (\<lambda>_. Print e a b c) s = (Inr (), s')"
  using print_ok [OF assms, of e a b c "world s"] by (auto simp: call_def)

lemma call_plt:
  assumes "library_contract lib"
  shows "\<exists>s'. call (plt lib c) (\<lambda>_. Plot c) s = (Inr (), s')"
  using plt_ok [OF assms, of c "world s"] by (auto simp: call_def)

lemma cols_loop_returns:
  assumes "library_contract lib" and "shape g = n # r"
  shows "c + length js \<le> n \<Longrightarrow> \<exists>s'. cols_loop lib g i js c s = (Inr (c + length js), s')"
proof (induction js arbitrary: c s)
  case Nil
  then show ?case by (simp add: comp_Inr)
next
  case (Cons j js)
  then have "c < n" by simp
  from get_row_ok [OF assms(2) this] obtain im where im: "get_row g (int c) = Inr im" by blast
  obtain s1 where s1: "call (plt lib (Imshow i j im)) (\<lambda>_. Plot (Imshow i j im)) s = (Inr (), s1)"
    using call_plt [OF assms(1)] by blast
  obtain s2 where s2: "call (plt lib (Axis_off i j)) (\<lambda>_. Plot (Axis_off i j)) s1 = (Inr (), s2)"
    using call_plt [OF assms(1)] by blast
  from Cons.prems have "(c + 1) + length js \<le> n" by simp
  from Cons.IH [OF this, of s2] obtain s' where
    "cols_loop lib g i js (c + 1) s2 = (Inr (c + 1 + length js), s')" by blast
  with im s1 s2 show ?case
    by (auto simp: bindS_Inr liftE_Inr)
qed

lemma rows_loop_returns:
  assumes "library_contract lib" and "shape g = n # r"
  shows "c + 5 * length rows \<le> n \<Longrightarrow> \<exists>c' s'. rows_loop lib g rows c s = (Inr c', s')"
proof (induction rows arbitrary: c s)
  case Nil
  then show ?case by (simp add: comp_Inr)
next
  case (Cons i rows)
  then have "c + length [0..<5] \<le> n" by simp
  from cols_loop_returns [OF assms this, of i s] obtain s1 where
    s1: "cols_loop lib g i [0..<5] c s = (Inr (c + length [0..<5]), s1)" by blast
  from Cons.prems have "(c + length [0..<5]) + 5 * length rows \<le> n" by simp
  from Cons.IH [OF this, of s1] obtain c' s' where
    "rows_loop lib g rows (c + length [0..<5]) s1 = (Inr c', s')" by blast
  with s1 show ?case
    by (auto simp: bindS_Inr)
qed

lemma save_images_returns:
  assumes "library_contract lib"
  shows "\<exists>s'. save_images lib epoch folder s = (Inr (), s')"
proof -
  obtain noise s1 where
    s1: "call (np_random_normal lib 25 100) (Normal 25 100) s = (Inr noise, s1)"
    and noise: "shape noise = [nat 25, nat 100]"
    using call_normal [OF assms, of 25 100 s] by auto
  obtain gen s2 where
    s2: "call (generator_predict lib noise) (Predict noise) s1 = (Inr gen, s2)"
    and gen: "\<forall>n r. shape noise = n # r \<longrightarrow> (\<exists>r'. shape gen = n # r')"
    using call_predict [OF assms, of noise s1] by blast
  from gen noise obtain r' where "shape gen = 25 # r'" by auto
  then have shp: "shape (rescale gen) = 25 # r'" by (simp add: rescale_def)
  obtain s3 where s3: "call (plt lib (Subplots 5 5)) (\<lambda>_. Plot (Subplots 5 5)) s2 = (Inr (), s3)"
    using call_plt [OF assms] by blast
  have "0 + 5 * length [0..<5] \<le> (25 :: nat)" by simp
  from rows_loop_returns [OF assms shp this, of s3] obtain c' s4 where
    s4: "rows_loop lib (rescale gen) [0..<5] 0 s3 = (Inr c', s4)" by blast
  obtain s5 where s5: "call (plt lib Show) (\<lambda>_. Plot Show) s4 = (Inr (), s5)"
    using call_plt [OF assms] by blast
  obtain s6 where s6: "call (plt lib (Savefig (image_file_name folder epoch)))
      (\<lambda>_. Plot (Savefig (image_file_name folder epoch))) s5 = (Inr (), s6)"
    using call_plt [OF assms] by blast
  obtain s7 where s7: "call (plt lib Close) (\<lambda>_. Plot Close) s6 = (Inr (), s7)"
    using call_plt [OF assms] by blast
  have "save_images lib epoch folder s = (Inr (), s7)"
    by (simp add: save_images_def bindS_def s1 s2 s3 s4 s5 s6 s7)
  then show ?thesis by blast
qed

lemma take_rows_ok:
  assumes "shape a = n # r" and "list_all (\<lambda>k. 0 \<le> k \<and> k < int n) idx"
  shows "\<exists>x. take_rows a idx = Inr x"
proof -
  from assms(2) have "list_all (\<lambda>k. - int n \<le> k \<and> k < int n) idx"
    by (induction idx) auto
  with assms(1) show ?thesis by (simp add: take_rows_def)
qed


lemma train_step_returns:
  assumes "library_contract lib" and "0 \<le> batch_size" and "save_interval \<noteq> 0"
    and "shape processed_images = n # r" and "0 < n"
  shows "\<exists>s'. train_step lib processed_images batch_size save_interval valid fake epoch s = (Inr (), s')"
proof -
  have n: "shape0 processed_images = Inr (int n)"
    using assms(4) by (simp add: shape0_def)
  from assms(5) have pos: "(0 :: int) < int n" by simp
  obtain idx s1 where
    s1: "call (np_random_randint lib 0 (int n) batch_size) (Randint 0 (int n) batch_size) s = (Inr idx, s1)"
    and idx: "list_all (\<lambda>k. 0 \<le> k \<and> k < int n) idx"
    using call_randint [OF assms(1) pos assms(2), of s] by blast
  obtain real_imgs where real: "take_rows processed_images idx = Inr real_imgs"
    using take_rows_ok [OF assms(4) idx] by blast
  obtain noise s2 where
    s2: "call (np_random_normal lib batch_size 100) (Normal batch_size 100) s1 = (Inr noise, s2)"
    using call_normal [OF assms(1,2), of 100 s1] by auto
  obtain gen_imgs s3 where
    s3: "call (generator_predict lib noise) (Predict noise) s2 = (Inr gen_imgs, s3)"
    using call_predict [OF assms(1), of noise s2] by blast
  obtain d_real s4 where
    s4: "call (discriminator_train_on_batch lib real_imgs valid) (Train_D real_imgs valid) s3 = (Inr d_real, s4)"
    using call_train_D [OF assms(1)] by blast
  obtain d_fake s5 where
    s5: "call (discriminator_train_on_batch lib gen_imgs fake) (Train_D gen_imgs fake) s4 = (Inr d_fake, s5)"
    using call_train_D [OF assms(1)] by blast
  obtain noise2 s6 where
    s6: "call (np_random_normal lib batch_size 100) (Normal batch_size 100) s5 = (Inr noise2, s6)"
    using call_normal [OF assms(1,2), of 100 s5] by auto
  obtain g_loss s7 where
    s7: "call (gan_train_on_batch lib noise2 valid) (Train_G noise2 valid) s6 = (Inr g_loss, s7)"
    using call_train_G [OF assms(1)] by blast
  let ?d = "half_np_add d_real d_fake"
  obtain s8 where
    s8: "call (py_print lib epoch (fst ?d) (100 * snd ?d) g_loss)
           (\<lambda>_. Print epoch (fst ?d) (100 * snd ?d) g_loss) s7 = (Inr (), s8)"
    using call_print [OF assms(1)] by blast
  obtain s9 where s9: "save_images lib epoch ''images/'' s8 = (Inr (), s9)"
    using save_images_returns [OF assms(1)] by blast
  have "train_step lib processed_images batch_size save_interval valid fake epoch s =
          (Inr (), if epoch mod save_interval = 0 \<or> epoch = 0 then s9 else s7)"
    by (simp add: train_step_def bindS_def liftE_def returnS_def py_mod_def Let_def
        n s1 real s2 s3 s4 s5 s6 s7 s8 s9 assms(3))
  then show ?thesis by blast
qed

lemma train_loop_returns:
  assumes "library_contract lib" and "0 \<le> batch_size" and "save_interval \<noteq> 0"
    and "shape processed_images = n # r" and "0 < n"
  shows "\<exists>s'. train_loop lib processed_images batch_size save_interval valid fake epochs s = (Inr (), s')"
proof (induction epochs arbitrary: s)
  case Nil
  then show ?case by (simp add: returnS_def)
next
  case (Cons epoch rest)
  obtain s1 where
    s1: "train_step lib processed_images batch_size save_interval valid fake epoch s = (Inr (), s1)"
    using train_step_returns [OF assms] by blast
  obtain s' where
    "train_loop lib processed_images batch_size save_interval valid fake rest s1 = (Inr (), s')"
    using Cons.IH by blast
  with s1 show ?case by (simp add: bindS_def)
qed

lemma train_gan_returns:
  assumes "library_contract lib" and "0 \<le> batch_size" and "save_interval \<noteq> 0"
    and "shape processed_images = n # r" and "0 < n"
  shows "\<exists>s'. train_gan lib processed_images epochs batch_size save_interval s = (Inr (), s')"
proof -
  obtain valid fake where vf: "np_ones batch_size 1 = Inr valid" "np_zeros batch_size 1 = Inr fake"
    using assms(2) by (simp add: np_ones_def np_zeros_def)
  obtain s' where
    "train_loop lib processed_images batch_size save_interval valid fake [0..epochs - 1] s = (Inr (), s')"
    using train_loop_returns [OF assms] by blast
  with vf show ?thesis by (simp add: train_gan_def bindS_def liftE_def)
qed

lemma example_run:
  "\<exists>s'. train_gan example_library example_images epochs 2 save_interval start = (Inr (), s')"
  if "save_interval \<noteq> 0"
proof -
  have shp: "shape example_images = 3 # [128, 128, 3]"
    by (simp add: example_images_def mk_array_def)
  show ?thesis
    by (rule train_gan_returns [OF example_library_contract _ that shp]) simp_all
qed

subsection \<open>Counting calls\<close>

lemma grid_call_not_generator_update: "is_grid_call ev \<Longrightarrow> \<not> is_generator_update ev"
  by (cases ev) auto

lemma grid_call_not_batch_draw: "is_grid_call ev \<Longrightarrow> \<not> is_batch_draw ev"
  by (cases ev) auto

lemma grid_call_not_training: "is_grid_call ev \<Longrightarrow> \<not> is_training_call ev"
  by (cases ev) auto

lemma filter_grid_generator: "list_all is_grid_call grid \<Longrightarrow> filter is_generator_update grid = []"
  by (induction grid) (auto dest: grid_call_not_generator_update)

lemma filter_grid_draw: "list_all is_grid_call grid \<Longrightarrow> filter is_batch_draw grid = []"
  by (induction grid) (auto dest: grid_call_not_batch_draw)

lemma filter_grid_training: "list_all is_grid_call grid \<Longrightarrow> filter is_training_call grid = []"
  by (induction grid) (auto dest: grid_call_not_training)

lemma save_events_counts:
  assumes "save_events epoch folder evs"
  shows "filter is_generator_update evs = [] \<and> filter is_batch_draw evs = [] \<and>
         filter is_training_call evs = []"
  using assms unfolding save_events_def
  by (auto simp: filter_grid_generator filter_grid_draw filter_grid_training)

lemma save_events_no_training:
  "save_events epoch folder evs \<Longrightarrow> filter is_training_call evs = []"
  using save_events_counts by blast


lemma iteration_events_counts:
  assumes "iteration_events lib processed_images batch_size save_interval valid fake epoch evs"
  shows "generator_updates evs = 1 \<and> batch_draws evs = 1"
  using assms unfolding iteration_events_def generator_updates_def batch_draws_def
  by (auto simp: save_events_counts split: if_splits)

lemma concat_counts:
  assumes "list_all2 (iteration_events lib processed_images batch_size save_interval valid fake) epochs segs"
  shows "generator_updates (concat segs) = length epochs \<and> batch_draws (concat segs) = length epochs"
  using assms
proof (induction rule: list_all2_induct)
  case Nil
  then show ?case by (simp add: generator_updates_def batch_draws_def)
next
  case (Cons epoch evs epochs segs)
  from iteration_events_counts [OF Cons.hyps(1)] Cons.IH show ?case
    by (simp add: generator_updates_def batch_draws_def)
qed

lemma length_range: "length [0..epochs - 1] = nat epochs"
  by simp

subsection \<open>What any run appends\<close>

lemma appends_returnS: "appends P (returnS v)"
  by (simp add: appends_def returnS_def)

lemma appends_liftE: "appends P (liftE r)"
  by (simp add: appends_def liftE_def)

lemma appends_call: "(\<And>r. P (ev r)) \<Longrightarrow> appends P (call f ev)"
  by (auto simp: appends_def call_def split: sum.splits)

lemma appends_bindS:
  assumes "appends P m" and "\<And>x. appends P (f x)"
  shows "appends P (bindS m f)"
  unfolding appends_def
proof (intro allI impI)
  fix s r s'
  assume run: "bindS m f s = (r, s')"
  obtain r1 s1 where m: "m s = (r1, s1)" by (cases "m s")
  from assms(1) m obtain e1 where e1: "calls s1 = calls s @ e1" "list_all P e1"
    unfolding appends_def by blast
  show "\<exists>evs. calls s' = calls s @ evs \<and> list_all P evs"
  proof (cases r1)
    case (Inl e)
    with run m have "s' = s1" by (simp add: bindS_def)
    with e1 show ?thesis by blast
  next
    case (Inr x)
    with run m have "f x s1 = (r, s')" by (simp add: bindS_def)
    with assms(2) obtain e2 where "calls s' = calls s1 @ e2" "list_all P e2"
      unfolding appends_def by blast
    with e1 show ?thesis by (intro exI [of _ "e1 @ e2"]) simp
  qed
qed

lemma appends_cols_loop: "(\<And>c. P (Plot c)) \<Longrightarrow> appends P (cols_loop lib g i js c)"
  by (induction js arbitrary: c)
     (auto intro!: appends_returnS appends_bindS appends_liftE appends_call)

lemma appends_rows_loop: "(\<And>c. P (Plot c)) \<Longrightarrow> appends P (rows_loop lib g rows c)"
  by (induction rows arbitrary: c)
     (auto intro!: appends_returnS appends_bindS appends_cols_loop)

lemma appends_save_images:
  assumes "\<And>c. P (Plot c)" and "\<And>m n a. P (Normal m n a)" and "\<And>x y. P (Predict x y)"
  shows "appends P (save_images lib epoch folder)"
  unfolding save_images_def
  by (intro appends_bindS appends_call appends_rows_loop assms)

lemma appends_train_step:
  "appends (label_ok valid fake) (train_step lib processed_images batch_size save_interval valid fake epoch)"
  unfolding train_step_def Let_def
  by (intro appends_bindS appends_call appends_liftE appends_save_images)
     (auto intro!: appends_bindS appends_call appends_returnS appends_save_images)

lemma appends_train_loop:
  "appends (label_ok valid fake) (train_loop lib processed_images batch_size save_interval valid fake epochs)"
  by (induction epochs) (auto intro!: appends_returnS appends_bindS appends_train_step)

lemma np_ones_Inr:
  "np_ones m n = Inr a \<Longrightarrow>
     0 \<le> m \<and> 0 \<le> n \<and> shape a = [nat m, nat n] \<and> (\<forall>idx. in_bounds [nat m, nat n] idx \<longrightarrow> item a idx = Some 1)"
  by (auto simp: np_ones_def mk_array_def split: if_splits)

lemma np_zeros_Inr:
  "np_zeros m n = Inr a \<Longrightarrow>
     0 \<le> m \<and> 0 \<le> n \<and> shape a = [nat m, nat n] \<and> (\<forall>idx. in_bounds [nat m, nat n] idx \<longrightarrow> item a idx = Some 0)"
  by (auto simp: np_zeros_def mk_array_def split: if_splits)



subsection \<open>Every run keeps to the protocol\<close>

lemma run_steps_append:
  "run_steps d q (xs @ ys) = (case run_steps d q xs of None \<Rightarrow> None | Some q' \<Rightarrow> run_steps d q' ys)"
  by (induction xs arbitrary: q) (auto split: option.splits)

lemma tracks_returnS: "Q v q \<Longrightarrow> tracks d q (returnS v) Q"
  by (simp add: tracks_def returnS_def)

lemma tracks_liftE_bind:
  assumes "\<And>v. r = Inr v \<Longrightarrow> tracks d q (f v) Q"
  shows "tracks d q (bindS (liftE r) f) Q"
proof (cases r)
  case (Inl e)
  then show ?thesis by (simp add: tracks_def bindS_def liftE_def)
next
  case (Inr v)
  from assms [OF Inr] show ?thesis by (simp add: tracks_def bindS_def liftE_def Inr)
qed

lemma tracks_call:
  assumes "\<And>r. \<exists>q'. d q (ev r) = Some q' \<and> Q r q'"
  shows "tracks d q (call c ev) Q"
  unfolding tracks_def
proof (intro allI impI)
  fix s r s'
  assume run: "call c ev s = (r, s')"
  show "\<exists>evs q'. calls s' = calls s @ evs \<and> run_steps d q evs = Some q' \<and> (\<forall>v. r = Inr v \<longrightarrow> Q v q')"
  proof (cases "c (world s)")
    case (Inl e)
    with run have "r = Inl e" "s' = s" by (simp_all add: call_def)
    then have "calls s' = calls s @ [] \<and> run_steps d q [] = Some q \<and> (\<forall>v. r = Inr v \<longrightarrow> Q v q)"
      by simp
    then show ?thesis by blast
  next
    case (Inr p)
    obtain v w' where p: "p = (v, w')" by (cases p)
    from assms [of v] obtain q' where q': "d q (ev v) = Some q'" "Q v q'" by blast
    from run Inr p have "r = Inr v" "calls s' = calls s @ [ev v]" by (auto simp: call_def)
    with q' have "calls s' = calls s @ [ev v] \<and> run_steps d q [ev v] = Some q' \<and> (\<forall>u. r = Inr u \<longrightarrow> Q u q')"
      by simp
    then show ?thesis by blast
  qed
qed

lemma tracks_bind:
  assumes "tracks d q m R" and "\<And>v q1. R v q1 \<Longrightarrow> tracks d q1 (f v) Q"
  shows "tracks d q (bindS m f) Q"
  unfolding tracks_def
proof (intro allI impI)
  fix s r s'
  assume run: "bindS m f s = (r, s')"
  obtain r0 s0 where m: "m s = (r0, s0)" by (cases "m s")
  from assms(1) [unfolded tracks_def, rule_format, OF m]
  obtain evs0 q0 where a: "calls s0 = calls s @ evs0" "run_steps d q evs0 = Some q0"
    "\<forall>v. r0 = Inr v \<longrightarrow> R v q0"
    by blast
  show "\<exists>evs q'. calls s' = calls s @ evs \<and> run_steps d q evs = Some q' \<and> (\<forall>v. r = Inr v \<longrightarrow> Q v q')"
  proof (cases r0)
    case (Inl e)
    with run m have "r = Inl e" "s' = s0" by (simp_all add: bindS_def)
    with a have "calls s' = calls s @ evs0 \<and> run_steps d q evs0 = Some q0 \<and> (\<forall>v. r = Inr v \<longrightarrow> Q v q0)"
      by simp
    then show ?thesis by blast
  next
    case (Inr v)
    with run m have f: "f v s0 = (r, s')" by (simp add: bindS_def)
    from a(3) Inr have "R v q0" by simp
    from assms(2) [OF this, unfolded tracks_def, rule_format, OF f]
    obtain evs1 q1 where b: "calls s' = calls s0 @ evs1" "run_steps d q0 evs1 = Some q1"
      "\<forall>u. r = Inr u \<longrightarrow> Q u q1"
      by blast
    from a b have "calls s' = calls s @ (evs0 @ evs1) \<and> run_steps d q (evs0 @ evs1) = Some q1 \<and>
        (\<forall>u. r = Inr u \<longrightarrow> Q u q1)"
      by (simp add: run_steps_append)
    then show ?thesis by blast
  qed
qed

lemma tracks_call_bind:
  assumes "\<And>r. \<exists>q'. d q (ev r) = Some q' \<and> tracks d q' (f r) Q"
  shows "tracks d q (bindS (call c ev) f) Q"
proof (rule tracks_bind [where R = "\<lambda>r q1. d q (ev r) = Some q1"])
  show "tracks d q (call c ev) (\<lambda>r q1. d q (ev r) = Some q1)"
    using assms by (intro tracks_call) blast
next
  fix v q1
  assume "d q (ev v) = Some q1"
  with assms [of v] show "tracks d q1 (f v) Q" by auto
qed

lemma protocol_simps:
  "protocol I E B S (e, Draw) (Randint low high n idx) =
     (if low = 0 \<and> shape0 I = Inr high \<and> n = B \<and> 0 \<le> e \<and> e < E then Some (e, Noise idx) else None)"
  "protocol I E B S (e, Noise idx) (Normal m k noise) =
     (if m = B \<and> k = 100 then Some (e, Gen idx noise) else None)"
  "protocol I E B S (e, Gen idx noise) (Predict x gen_imgs) =
     (if x = noise then Some (e, Real idx gen_imgs) else None)"
  "protocol I E B S (e, Real idx gen_imgs) (Train_D x y d_real) =
     (if take_rows I idx = Inr x \<and> np_ones B 1 = Inr y then Some (e, Fake gen_imgs d_real) else None)"
  "protocol I E B S (e, Fake gen_imgs d_real) (Train_D x y d_fake) =
     (if x = gen_imgs \<and> np_zeros B 1 = Inr y then Some (e, Noise2 (half_np_add d_real d_fake)) else None)"
  "protocol I E B S (e, Noise2 d_loss) (Normal m k noise2) =
     (if m = B \<and> k = 100 then Some (e, Upd d_loss noise2) else None)"
  "protocol I E B S (e, Upd d_loss noise2) (Train_G x y g_loss) =
     (if x = noise2 \<and> np_ones B 1 = Inr y then Some (after_update S e d_loss g_loss) else None)"
  "protocol I E B S (e, Report d_loss g_loss) (Print e' a b c) =
     (if e' = e \<and> a = fst d_loss \<and> b = 100 * snd d_loss \<and> c = g_loss then Some (e, SNoise) else None)"
  "protocol I E B S (e, SNoise) (Normal m k noise) =
     (if m = 25 \<and> k = 100 then Some (e, SGen noise) else None)"
  "protocol I E B S (e, SGen noise) (Predict x gen_imgs) =
     (if x = noise then Some (e, SFig (rescale gen_imgs)) else None)"
  "protocol I E B S (e, SFig g) (Plot (Subplots rows cols)) =
     (if rows = 5 \<and> cols = 5 then Some (e, Grid g 0 False) else None)"
  "protocol I E B S (e, Grid g n' shown) (Plot (Imshow i j im)) =
     (if \<not> shown \<and> n' < 25 \<and> i = n' div 5 \<and> j = n' mod 5 \<and> get_row g (int n') = Inr im
      then Some (e, Grid g n' True) else None)"
  "protocol I E B S (e, Grid g n' shown) (Plot (Axis_off i j)) =
     (if shown \<and> i = n' div 5 \<and> j = n' mod 5 then Some (e, Grid g (n' + 1) False) else None)"
  "protocol I E B S (e, Grid g n' shown) (Plot Show) =
     (if \<not> shown \<and> n' = 25 then Some (e, SSave) else None)"
  "protocol I E B S (e, SSave) (Plot (Savefig name)) =
     (if name = image_file_name ''images/'' e \<and> S \<noteq> 0 \<and> e mod S = 0 \<and> 0 \<le> e \<and> e < E
      then Some (e, SClose) else None)"
  "protocol I E B S (e, SClose) (Plot Close) = Some (e + 1, Draw)"
  by (simp_all add: protocol_def)

lemma grid_position: "j < 5 \<Longrightarrow> (5 * i + j) div 5 = i \<and> (5 * i + j) mod 5 = (j :: nat)"
  by simp

lemma tracks_cols_loop:
  assumes "js = [j..<5]" and "i < 5" and "j \<le> 5"
  shows "tracks (protocol imgs epochs batch_size save_interval) (epoch, Grid g (5 * i + j) False)
           (cols_loop lib g i js (5 * i + j))
           (\<lambda>c q. c = 5 * i + 5 \<and> q = (epoch, Grid g (5 * i + 5) False))"
  using assms
proof (induction js arbitrary: j)
  case Nil
  then have "[j..<5] = []" by simp
  with Nil have "j = 5" by simp
  then show ?case by (simp add: tracks_returnS)
next
  case (Cons a js)
  from Cons.prems(1) [symmetric] have j: "j < 5" "a = j" "js = [Suc j..<5]"
    by (auto simp: upt_eq_Cons_conv)
  have k: "5 * i + j < 25" using j(1) Cons.prems(2) by simp
  have nxt: "5 * i + j + 1 = 5 * i + Suc j" by simp
  from Cons.IH [OF j(3) Cons.prems(2)] j(1)
  have rest: "tracks (protocol imgs epochs batch_size save_interval) (epoch, Grid g (5 * i + Suc j) False)
           (cols_loop lib g i js (5 * i + Suc j))
           (\<lambda>c q. c = 5 * i + 5 \<and> q = (epoch, Grid g (5 * i + 5) False))"
    by simp
  show ?case
    unfolding cols_loop.simps j(2)
    apply (rule tracks_liftE_bind)
    apply (rule tracks_call_bind)
    apply (simp add: protocol_simps k j(1))
    apply (rule tracks_call_bind)
    apply (simp add: protocol_simps j(1))
    apply (use rest in simp)
    done
qed

lemma tracks_rows_loop:
  assumes "rows = [i..<5]" and "i \<le> 5"
  shows "tracks (protocol imgs epochs batch_size save_interval) (epoch, Grid g (5 * i) False)
           (rows_loop lib g rows (5 * i))
           (\<lambda>c q. q = (epoch, Grid g 25 False))"
  using assms
proof (induction rows arbitrary: i)
  case Nil
  then have "[i..<5] = []" by simp
  with Nil have "i = 5" by simp
  then show ?case by (simp add: tracks_returnS)
next
  case (Cons a rows)
  from Cons.prems(1) [symmetric] have i: "i < 5" "a = i" "rows = [Suc i..<5]"
    by (auto simp: upt_eq_Cons_conv)
  have c: "tracks (protocol imgs epochs batch_size save_interval) (epoch, Grid g (5 * i) False)
           (cols_loop lib g i [0..<5] (5 * i))
           (\<lambda>c q. c = 5 * i + 5 \<and> q = (epoch, Grid g (5 * i + 5) False))"
    using tracks_cols_loop [of "[0..<5]" 0 i imgs epochs batch_size save_interval epoch g lib] i(1)
    by simp
  have nxt: "5 * i + 5 = 5 * Suc i" by simp
  from Cons.IH [OF i(3)] i(1)
  have rest: "tracks (protocol imgs epochs batch_size save_interval) (epoch, Grid g (5 * Suc i) False)
           (rows_loop lib g rows (5 * Suc i))
           (\<lambda>c q. q = (epoch, Grid g 25 False))"
    by simp
  from rest have rest': "tracks (protocol imgs epochs batch_size save_interval) (epoch, Grid g (5 * i + 5) False)
           (rows_loop lib g rows (5 * i + 5))
           (\<lambda>c q. q = (epoch, Grid g 25 False))"
    by (simp only: nxt)
  show ?case
    unfolding rows_loop.simps i(2)
    apply (rule tracks_bind [OF c])
    apply (erule conjE)
    apply hypsubst
    apply (rule rest')
    done
qed

lemma tracks_save_images:
  assumes "save_interval \<noteq> 0" and "epoch mod save_interval = 0" and "0 \<le> epoch" and "epoch < epochs"
  shows "tracks (protocol imgs epochs batch_size save_interval) (epoch, SNoise)
           (save_images lib epoch ''images/'')
           (\<lambda>u q. q = (epoch + 1, Draw))"
proof -
  have g: "tracks (protocol imgs epochs batch_size save_interval) (epoch, Grid g 0 False)
           (rows_loop lib g [0..<5] 0)
           (\<lambda>c q. q = (epoch, Grid g 25 False))" for g
    using tracks_rows_loop [of "[0..<5]" 0 imgs epochs batch_size save_interval epoch g lib] by simp
  show ?thesis
    unfolding save_images_def
    apply (rule tracks_call_bind)
    apply (simp add: protocol_simps)
    apply (rule tracks_call_bind)
    apply (simp add: protocol_simps)
    apply (rule tracks_call_bind)
    apply (simp add: protocol_simps)
    apply (rule tracks_bind [OF g])
    apply (rule tracks_call_bind)
    apply (simp add: protocol_simps)
    apply (rule tracks_call_bind)
    apply (simp add: protocol_simps assms)
    apply (rule tracks_call)
    apply (simp add: protocol_simps)
    done
qed

lemma tracks_report:
  assumes "0 \<le> epoch" and "epoch < epochs"
  shows "tracks (protocol imgs epochs batch_size save_interval) (after_update save_interval epoch d g)
           (bindS (liftE (py_mod epoch save_interval)) (\<lambda>r.
              if r = 0 \<or> epoch = 0 then
                bindS (call (py_print lib epoch (fst d) (100 * snd d) g)
                         (\<lambda>_. Print epoch (fst d) (100 * snd d) g)) (\<lambda>_.
                  save_images lib epoch ''images/'')
              else returnS ()))
           (\<lambda>u q. q = (epoch + 1, Draw))"
proof (rule tracks_liftE_bind)
  fix r
  assume r: "py_mod epoch save_interval = Inr r"
  then have si: "save_interval \<noteq> 0" and rm: "r = epoch mod save_interval"
    by (simp_all add: py_mod_Inr)
  show "tracks (protocol imgs epochs batch_size save_interval) (after_update save_interval epoch d g)
           (if r = 0 \<or> epoch = 0 then
                bindS (call (py_print lib epoch (fst d) (100 * snd d) g)
                         (\<lambda>_. Print epoch (fst d) (100 * snd d) g)) (\<lambda>_.
                  save_images lib epoch ''images/'')
              else returnS ())
           (\<lambda>u q. q = (epoch + 1, Draw))"
  proof (cases "r = 0 \<or> epoch = 0")
    case True
    with rm have m: "epoch mod save_interval = 0" by auto
    from r True have st: "after_update save_interval epoch d g = (epoch, Report d g)"
      by (simp add: after_update_def)
    have "tracks (protocol imgs epochs batch_size save_interval) (epoch, Report d g)
           (bindS (call (py_print lib epoch (fst d) (100 * snd d) g)
                         (\<lambda>_. Print epoch (fst d) (100 * snd d) g)) (\<lambda>_.
                  save_images lib epoch ''images/''))
           (\<lambda>u q. q = (epoch + 1, Draw))"
      apply (rule tracks_call_bind)
      apply (simp add: protocol_simps)
      apply (rule tracks_save_images [OF si m assms])
      done
    with True st show ?thesis by simp
  next
    case False
    with r have st: "after_update save_interval epoch d g = (epoch + 1, Draw)"
      by (simp add: after_update_def)
    from False st show ?thesis by (simp add: tracks_returnS)
  qed
qed

lemma tracks_train_step:
  assumes "np_ones batch_size 1 = Inr valid" and "np_zeros batch_size 1 = Inr fake"
    and "0 \<le> epoch" and "epoch < epochs"
  shows "tracks (protocol imgs epochs batch_size save_interval) (epoch, Draw)
           (train_step lib imgs batch_size save_interval valid fake epoch)
           (\<lambda>u q. q = (epoch + 1, Draw))"
  unfolding train_step_def Let_def
  apply (rule tracks_liftE_bind)
  apply (rule tracks_call_bind)
  apply (simp add: protocol_simps assms)
  apply (rule tracks_liftE_bind)
  apply (rule tracks_call_bind)
  apply (simp add: protocol_simps)
  apply (rule tracks_call_bind)
  apply (simp add: protocol_simps)
  apply (rule tracks_call_bind)
  apply (simp add: protocol_simps assms)
  apply (rule tracks_call_bind)
  apply (simp add: protocol_simps assms)
  apply (rule tracks_call_bind)
  apply (simp add: protocol_simps)
  apply (rule tracks_call_bind)
  apply (simp only: protocol_simps assms simp_thms if_True)
  apply (rule exI)
  apply (rule conjI)
  apply (rule refl)
  apply (rule tracks_report [OF assms(3,4)])
  done

lemma tracks_train_loop:
  assumes "np_ones batch_size 1 = Inr valid" and "np_zeros batch_size 1 = Inr fake"
    and "0 \<le> epoch" and "n = nat (epochs - epoch)"
  shows "tracks (protocol imgs epochs batch_size save_interval) (epoch, Draw)
           (train_loop lib imgs batch_size save_interval valid fake [epoch..epochs - 1])
           (\<lambda>u q. q = (max epoch epochs, Draw))"
  using assms(3,4)
proof (induction n arbitrary: epoch)
  case 0
  then have "[epoch..epochs - 1] = []" "max epoch epochs = epoch" by simp_all
  then show ?case by (simp add: tracks_returnS)
next
  case (Suc n)
  then have lt: "epoch < epochs" by simp
  then have l: "[epoch..epochs - 1] = epoch # [epoch + 1..epochs - 1]"
    by (simp add: upto_rec1)
  from Suc.prems lt have m: "max (epoch + 1) epochs = max epoch epochs" by simp
  from Suc.IH [of "epoch + 1"] Suc.prems
  have rest: "tracks (protocol imgs epochs batch_size save_interval) (epoch + 1, Draw)
           (train_loop lib imgs batch_size save_interval valid fake [epoch + 1..epochs - 1])
           (\<lambda>u q. q = (max epoch epochs, Draw))"
    by (simp add: m)
  show ?case
    unfolding l train_loop.simps
    apply (rule tracks_bind [OF tracks_train_step [OF assms(1,2) Suc.prems(1) lt]])
    apply hypsubst
    apply (rule rest)
    done
qed

text \<open>From the start of the protocol every run of \<^verbatim>\<open>train_gan\<close> keeps to it, and a run
  that returns has finished every pass.\<close>

lemma tracks_train_gan:
  "tracks (protocol imgs epochs batch_size save_interval) (0, Draw)
     (train_gan lib imgs epochs batch_size save_interval)
     (\<lambda>u q. q = (max 0 epochs, Draw))"
  unfolding train_gan_def
  apply (rule tracks_liftE_bind)
  apply (rule tracks_liftE_bind)
  apply (rule tracks_train_loop [where n = "nat (epochs - 0)"])
  apply simp_all
  done

lemma train_gan_protocol:
  assumes "train_gan lib imgs epochs batch_size save_interval s = (r, s')"
  shows "\<exists>evs q. calls s' = calls s @ evs \<and>
           run_steps (protocol imgs epochs batch_size save_interval) (0, Draw) evs = Some q \<and>
           (r = Inr () \<longrightarrow> q = (max 0 epochs, Draw))"
  using tracks_train_gan [unfolded tracks_def, rule_format, OF assms] by blast

subsection \<open>What the protocol implies for a log\<close>

lemma run_steps_invariant:
  assumes "\<And>q ev q'. P q \<Longrightarrow> d q ev = Some q' \<Longrightarrow> P q'" and "P q" and "run_steps d q evs = Some q'"
  shows "P q'"
  using assms(2,3)
proof (induction evs arbitrary: q)
  case Nil
  then show ?case by simp
next
  case (Cons ev evs)
  from Cons.prems(2) obtain q1 where s: "d q ev = Some q1" and r: "run_steps d q1 evs = Some q'"
    by (auto split: option.splits)
  from Cons.IH [OF assms(1) [OF Cons.prems(1) s] r] show ?case .
qed

lemma run_steps_history:
  assumes "\<And>evs q ev q'. H evs q \<Longrightarrow> d q ev = Some q' \<Longrightarrow> H (evs @ [ev]) q'"
    and "H [] q" and "run_steps d q evs = Some q'"
  shows "H evs q'"
  using assms(3)
proof (induction evs arbitrary: q' rule: rev_induct)
  case Nil
  with assms(2) show ?case by simp
next
  case (snoc ev evs)
  from snoc.prems obtain q1 where r: "run_steps d q evs = Some q1" and s: "d q1 ev = Some q'"
    by (auto simp: run_steps_append split: option.splits)
  from assms(1) [OF snoc.IH [OF r] s] show ?case .
qed

lemma run_steps_split:
  assumes "run_steps d q (pre @ ev # post) = Some q'"
  shows "\<exists>q1 q2. run_steps d q pre = Some q1 \<and> d q1 ev = Some q2 \<and> run_steps d q2 post = Some q'"
  using assms by (auto simp: run_steps_append split: option.splits)

lemmas protocol_splits =
  phase.splits event.splits plot_call.splits if_splits sum.splits prod.splits

text \<open>Each step of the protocol counts the generator updates and the batch draws.\<close>

lemma protocol_counts:
  assumes "protocol I E B S q ev = Some q'"
  shows "updated q' = updated q + (if is_generator_update ev then 1 else 0)"
    and "drawn q' = drawn q + (if is_batch_draw ev then 1 else 0)"
  using assms
  by (auto simp: protocol_def after_update_def split: protocol_splits)

lemma run_counts:
  assumes "run_steps (protocol I E B S) q evs = Some q'"
  shows "updated q' = updated q + int (generator_updates evs) \<and>
         drawn q' = drawn q + int (batch_draws evs)"
  using assms
proof (induction evs arbitrary: q)
  case Nil
  then show ?case by (simp add: generator_updates_def batch_draws_def)
next
  case (Cons ev evs)
  from Cons.prems obtain q1 where s: "protocol I E B S q ev = Some q1"
    and r: "run_steps (protocol I E B S) q1 evs = Some q'"
    by (auto split: option.splits)
  from Cons.IH [OF r] protocol_counts [OF s] show ?case
    by (simp add: generator_updates_def batch_draws_def)
qed

text \<open>No pass beyond the last: in every state reached, the passes drawn and the passes
  updated are at most \<open>epochs\<close>.\<close>

lemma protocol_bound_step:
  assumes "0 \<le> fst q \<and> (if snd q = Draw then fst q \<le> max 0 E else fst q < E)"
    and "protocol I E B S q ev = Some q'"
  shows "0 \<le> fst q' \<and> (if snd q' = Draw then fst q' \<le> max 0 E else fst q' < E)"
  using assms
  by (auto simp: protocol_def after_update_def split: protocol_splits)

lemma protocol_bound:
  assumes "run_steps (protocol I E B S) (0, Draw) evs = Some q"
  shows "updated q \<le> max 0 E \<and> drawn q \<le> max 0 E"
proof -
  have "0 \<le> fst q \<and> (if snd q = Draw then fst q \<le> max 0 E else fst q < E)"
    by (rule run_steps_invariant [where P = "\<lambda>q. 0 \<le> fst q \<and> (if snd q = Draw then fst q \<le> max 0 E else fst q < E)",
          OF protocol_bound_step _ assms]) simp_all
  then show ?thesis
    by (cases q; cases "snd q") (auto split: if_splits)
qed

text \<open>With the interval zero no pass is ever finished.\<close>

lemma protocol_zero_step:
  assumes "fst q = 0 \<and> (updated q = 0 \<or> snd q = Halt)" and "protocol I E B 0 q ev = Some q'"
  shows "fst q' = 0 \<and> (updated q' = 0 \<or> snd q' = Halt)"
  using assms
  by (auto simp: protocol_def after_update_def py_mod_def split: protocol_splits)

lemma protocol_zero:
  assumes "run_steps (protocol I E B 0) (0, Draw) evs = Some q"
  shows "fst q = 0 \<and> updated q \<le> 1"
proof -
  have "fst q = 0 \<and> (updated q = 0 \<or> snd q = Halt)"
    by (rule run_steps_invariant [where P = "\<lambda>q. fst q = 0 \<and> (updated q = 0 \<or> snd q = Halt)",
          OF protocol_zero_step _ assms]) simp_all
  then show ?thesis by (cases q) auto
qed

section \<open>The fixed-length loop\<close>

text \<open>
  C6, as stated, fails: with \<open>save_interval = 0\<close> the condition
  \<^verbatim>\<open>epoch % save_interval == 0\<close> raises \<^verbatim>\<open>ZeroDivisionError\<close> at the end of the
  first pass. The call with three epochs, batch size two and interval zero ends in that
  exception after a single generator update, not after three passes.
\<close>

theorem counterexample_zero_interval:
  "fst (train_gan example_library example_images 3 2 0 start) = Inl ZeroDivisionError \<and>
   generator_updates (calls (snd (train_gan example_library example_images 3 2 0 start))) = 1"
  by (simp add: train_gan_def train_step_def bindS_def liftE_def call_def returnS_def np_ones_def
      np_zeros_def example_library_def example_images_def start_def shape0_def take_rows_def
      mk_array_def py_mod_def generator_updates_def Let_def upto.simps list_all_iff)

text \<open>
  C6, amended. Take any call of \<^verbatim>\<open>train_gan\<close>, with any libraries, arguments and
  world, and however it ends. The calls it makes contain at most \<open>epochs\<close> batch draws
  and at most \<open>epochs\<close> generator updates (none when \<open>epochs\<close> is not positive): the
  loop never runs a pass beyond the last. A call that returns has made exactly \<open>epochs\<close>
  of each: it has run exactly \<open>epochs\<close> passes. A call that made fewer generator updates
  ended in an exception: nothing but an exception ends the loop early, whatever losses
  and accuracies the calls return. With the interval zero and a positive \<open>epochs\<close> the
  call always ends in an exception, after one generator update at most.
\<close>

theorem train_gan_runs_epochs_iterations:
  assumes "train_gan lib processed_images epochs batch_size save_interval s = (r, s')"
  shows "\<exists>evs. calls s' = calls s @ evs \<and>
           generator_updates evs \<le> nat epochs \<and> batch_draws evs \<le> nat epochs \<and>
           (r = Inr () \<longrightarrow> generator_updates evs = nat epochs \<and> batch_draws evs = nat epochs) \<and>
           (generator_updates evs < nat epochs \<longrightarrow> (\<exists>e. r = Inl e)) \<and>
           (save_interval = 0 \<and> 0 < epochs \<longrightarrow> (\<exists>e. r = Inl e) \<and> generator_updates evs \<le> 1)"
proof -
  from train_gan_protocol [OF assms] obtain evs q where
    log: "calls s' = calls s @ evs" and
    run: "run_steps (protocol processed_images epochs batch_size save_interval) (0, Draw) evs = Some q" and
    fin: "r = Inr () \<longrightarrow> q = (max 0 epochs, Draw)"
    by blast
  from run_counts [OF run] have cnt: "updated q = int (generator_updates evs)" "drawn q = int (batch_draws evs)"
    by simp_all
  from protocol_bound [OF run] cnt
  have le: "generator_updates evs \<le> nat epochs" "batch_draws evs \<le> nat epochs"
    by (auto simp: max_def split: if_splits)
  have eq: "generator_updates evs = nat epochs \<and> batch_draws evs = nat epochs" if "r = Inr ()"
  proof -
    from fin that have "q = (max 0 epochs, Draw)" by simp
    with cnt show ?thesis by simp
  qed
  have early: "\<exists>e. r = Inl e" if "generator_updates evs < nat epochs"
  proof (cases r)
    case (Inl e)
    then show ?thesis by blast
  next
    case (Inr u)
    then have "r = Inr ()" by simp
    from eq [OF this] that show ?thesis by simp
  qed
  have zero: "(\<exists>e. r = Inl e) \<and> generator_updates evs \<le> 1" if z: "save_interval = 0" and p: "0 < epochs"
  proof -
    from run z have "run_steps (protocol processed_images epochs batch_size 0) (0, Draw) evs = Some q"
      by simp
    from protocol_zero [OF this] have q: "fst q = 0" "updated q \<le> 1" by simp_all
    from q(2) cnt have one: "generator_updates evs \<le> 1" by simp
    have "\<exists>e. r = Inl e"
    proof (cases r)
      case (Inl e)
      then show ?thesis by blast
    next
      case (Inr u)
      then have "r = Inr ()" by simp
      with fin have "q = (max 0 epochs, Draw)" by simp
      with q(1) p show ?thesis by simp
    qed
    with one show ?thesis by simp
  qed
  from log le eq early zero show ?thesis by blast
qed

theorem train_gan_runs_epochs_iterations_witness:
  "(\<exists>s'. train_gan example_library example_images 2 2 1 start = (Inr (), s') \<and>
         batch_draws (calls s') = 2 \<and> generator_updates (calls s') = 2) \<and>
   (\<exists>e. fst (train_gan example_library example_images 3 2 0 start) = Inl e) \<and>
   generator_updates (calls (snd (train_gan example_library example_images 3 2 0 start))) \<le> 1"
proof -
  obtain s' where run: "train_gan example_library example_images 2 2 1 start = (Inr (), s')"
    using example_run [of 1 2] by auto
  from train_gan_runs_epochs_iterations [OF run]
  have a: "batch_draws (calls s') = 2 \<and> generator_updates (calls s') = 2"
    by (auto simp: start_def)
  obtain r' t' where run0: "train_gan example_library example_images 3 2 0 start = (r', t')"
    by (cases "train_gan example_library example_images 3 2 0 start")
  from train_gan_runs_epochs_iterations [OF run0]
  have b: "(\<exists>e. r' = Inl e) \<and> generator_updates (calls t') \<le> 1"
    by (auto simp: start_def)
  from run a b run0 show ?thesis by simp
qed

section \<open>The order of operations in a pass\<close>



section \<open>When the sample grid is written\<close>



section \<open>The adversarial labels\<close>

text \<open>
  C10. The label arrays are computed once, before the loop: \<open>valid\<close> is the array of
  ones and \<open>fake\<close> the array of zeros, both of shape (\<open>batch_size\<close>, 1); a negative
  batch size raises \<^verbatim>\<open>ValueError\<close> before any call. In every run, however it ends,
  each discriminator update in the log carries \<open>valid\<close> or \<open>fake\<close> and each update
  of the combined model carries \<open>valid\<close>. In a run that returns, every pass trains the
  discriminator on the real batch against \<open>valid\<close>, then on the generated batch
  against \<open>fake\<close>, and then the generator against \<open>valid\<close>, and makes no other
  training call: the same two arrays serve every pass.
\<close>

theorem adversarial_labels:
  assumes "train_gan lib processed_images epochs batch_size save_interval s = (res, s')"
  shows "\<exists>evs. calls s' = calls s @ evs \<and>
           (if batch_size < 0 then evs = [] \<and> res = Inl ValueError
            else \<exists>valid fake.
              np_ones batch_size 1 = Inr valid \<and> np_zeros batch_size 1 = Inr fake \<and>
              shape valid = [nat batch_size, 1] \<and> shape fake = [nat batch_size, 1] \<and>
              (\<forall>idx. in_bounds [nat batch_size, 1] idx \<longrightarrow>
                 item valid idx = Some 1 \<and> item fake idx = Some 0) \<and>
              list_all (label_ok valid fake) evs \<and>
              (\<forall>u. res = Inr u \<longrightarrow>
                 (\<exists>segs. evs = concat segs \<and>
                    list_all2 (\<lambda>epoch seg.
                      \<exists>n idx real_imgs noise gen_imgs d_real d_fake noise2 g_loss rest.
                        take_rows processed_images idx = Inr real_imgs \<and>
                        seg = [Randint 0 n batch_size idx, Normal batch_size 100 noise,
                               Predict noise gen_imgs,
                               Train_D real_imgs valid d_real, Train_D gen_imgs fake d_fake,
                               Normal batch_size 100 noise2, Train_G noise2 valid g_loss] @ rest \<and>
                        filter is_training_call rest = [])
                    [0..epochs - 1] segs)))"
    (is "\<exists>evs. ?L evs \<and> (if ?c then ?A evs else ?B evs)")
proof (cases "batch_size < 0")
  case True
  with assms have "res = Inl ValueError" "s' = s"
    by (simp_all add: train_gan_def bindS_def liftE_def np_ones_def)
  with True have "?L [] \<and> (if ?c then ?A [] else ?B [])" by (simp only: if_True append_Nil2 simp_thms)
  then show ?thesis by (rule exI)
next
  case False
  then obtain valid fake where
    v: "np_ones batch_size 1 = Inr valid" and f: "np_zeros batch_size 1 = Inr fake"
    by (simp add: np_ones_def np_zeros_def)
  let ?Q = "\<lambda>(epoch :: int) seg.
                      \<exists>n idx real_imgs noise gen_imgs d_real d_fake noise2 g_loss rest.
                        take_rows processed_images idx = Inr real_imgs \<and>
                        seg = [Randint 0 n batch_size idx, Normal batch_size 100 noise,
                               Predict noise gen_imgs,
                               Train_D real_imgs valid d_real, Train_D gen_imgs fake d_fake,
                               Normal batch_size 100 noise2, Train_G noise2 valid g_loss] @ rest \<and>
                        filter is_training_call rest = []"
  from assms v f have loop:
    "train_loop lib processed_images batch_size save_interval valid fake [0..epochs - 1] s = (res, s')"
    by (simp add: train_gan_def bindS_def liftE_def)
  from appends_train_loop [of valid fake lib processed_images batch_size save_interval "[0..epochs - 1]"] loop
  obtain evs where evs: "calls s' = calls s @ evs" "list_all (label_ok valid fake) evs"
    unfolding appends_def by blast
  have pattern: "\<exists>segs. evs = concat segs \<and> list_all2 ?Q [0..epochs - 1] segs" if "res = Inr u" for u
  proof -
    from loop that have "train_loop lib processed_images batch_size save_interval valid fake [0..epochs - 1] s = (Inr u, s')"
      by simp
    from train_loop_Inr [OF this] obtain segs where
      log: "calls s' = calls s @ concat segs" and
      segs: "list_all2 (iteration_events lib processed_images batch_size save_interval valid fake) [0..epochs - 1] segs"
      by blast
    have step: "?Q epoch seg"
      if it: "iteration_events lib processed_images batch_size save_interval valid fake epoch seg"
      for epoch seg
    proof -
      from it obtain n idx real_imgs noise gen_imgs d_real d_fake noise2 g_loss rest where
        real: "take_rows processed_images idx = Inr real_imgs" and
        seg: "seg = [Randint 0 n batch_size idx, Normal batch_size 100 noise, Predict noise gen_imgs,
               Train_D real_imgs valid d_real, Train_D gen_imgs fake d_fake,
               Normal batch_size 100 noise2, Train_G noise2 valid g_loss] @ rest" and
        rest: "if epoch mod save_interval = 0
           then \<exists>grid. rest = Print epoch (fst (half_np_add d_real d_fake))
                              (100 * snd (half_np_add d_real d_fake)) g_loss # grid \<and>
                     save_events epoch ''images/'' grid
           else rest = []"
        unfolding iteration_events_def by blast
      from rest have quiet: "filter is_training_call rest = []"
        by (auto simp: save_events_no_training split: if_splits)
      show ?thesis
        apply (rule exI [of _ n], rule exI [of _ idx], rule exI [of _ real_imgs], rule exI [of _ noise],
            rule exI [of _ gen_imgs], rule exI [of _ d_real], rule exI [of _ d_fake],
            rule exI [of _ noise2], rule exI [of _ g_loss], rule exI [of _ rest])
        apply (intro conjI)
          apply (rule real)
         apply (rule seg)
        apply (rule quiet)
        done
    qed
    have "list_all2 ?Q [0..epochs - 1] segs"
      by (rule list_all2_mono [OF segs]) (rule step)
    moreover from log evs(1) have "evs = concat segs" by simp
    ultimately show ?thesis by blast
  qed
  from np_ones_Inr [OF v] np_zeros_Inr [OF f] have
    shapes: "shape valid = [nat batch_size, 1]" "shape fake = [nat batch_size, 1]"
      "\<forall>idx. in_bounds [nat batch_size, 1] idx \<longrightarrow> item valid idx = Some 1 \<and> item fake idx = Some 0"
    by simp_all
  have "?B evs"
    apply (rule exI [of _ valid], rule exI [of _ fake])
    apply (intro conjI)
          apply (rule v)
         apply (rule f)
        apply (rule shapes(1))
       apply (rule shapes(2))
      apply (rule shapes(3))
     apply (rule evs(2))
    apply (intro allI impI)
    apply (erule pattern)
    done
  with False have "if ?c then ?A evs else ?B evs" by (simp only: if_False)
  with evs(1) have "?L evs \<and> (if ?c then ?A evs else ?B evs)" by (rule conjI)
  then show ?thesis by (rule exI)
qed

theorem adversarial_labels_witness:
  "\<exists>s' segs. train_gan example_library example_images 2 2 1 start = (Inr (), s') \<and>
      calls s' = concat segs \<and> length segs = 2 \<and>
      list_all (label_ok (mk_array [2, 1] (\<lambda>idx. 1)) (mk_array [2, 1] (\<lambda>idx. 0))) (calls s')"
proof -
  obtain s' where run: "train_gan example_library example_images 2 2 1 start = (Inr (), s')"
    using example_run [of 1 2] by auto
  have v: "np_ones 2 1 = Inr (mk_array [2, 1] (\<lambda>idx. 1))"
    and f: "np_zeros 2 1 = Inr (mk_array [2, 1] (\<lambda>idx. 0))"
    by (simp_all add: np_ones_def np_zeros_def)
  from adversarial_labels [OF run] v f
  obtain evs segs where log: "calls s' = calls start @ evs"
    and ok: "list_all (label_ok (mk_array [2, 1] (\<lambda>idx. 1)) (mk_array [2, 1] (\<lambda>idx. 0))) evs"
    and segs: "evs = concat segs" "length [0..(2::int) - 1] = length segs"
    by (auto dest: list_all2_lengthD)
  from segs(2) have "length segs = 2" by simp
  with run log ok segs(1) show ?thesis by (auto simp: start_def)
qed

end
